theory Spec2Isabelle
  imports Complex_Main
begin

section \<open>JavaScript values and helpers\<close>

text \<open>
  A value that can be thrown or that rejects a promise. \<open>JSError m\<close> is an instance of
  \<open>Error\<close> whose \<open>message\<close> is \<open>m\<close>; \<open>JSThrown s\<close> is any other thrown value, a
  primitive whose \<open>String(...)\<close> rendering is \<open>s\<close> and that has no \<open>message\<close> property.
\<close>

datatype thrown = JSError string | JSThrown string

text \<open>A promise that has settled, as \<open>await\<close> and \<open>Promise.allSettled\<close> see it.\<close>

datatype 'a settled = Fulfilled 'a | Rejected thrown

text \<open>\<open>a || b\<close> on an optional string: \<open>undefined\<close> and the empty string are falsy.\<close>

fun str_or :: "string option \<Rightarrow> string \<Rightarrow> string" where
  "str_or None d = d"
| "str_or (Some s) d = (if s = [] then d else s)"

text \<open>\<open>Array.prototype.join\<close>.\<close>

fun join :: "string \<Rightarrow> string list \<Rightarrow> string" where
  "join sep [] = []"
| "join sep [x] = x"
| "join sep (x # y # ys) = x @ sep @ join sep (y # ys)"

text \<open>
  \<open>Array.prototype.slice(begin)\<close> with one argument: a negative \<open>begin\<close> counts from the
  end, and the start index is clamped to the array. \<open>-0\<close> is \<open>0\<close>.
\<close>

definition slice_from :: "'a list \<Rightarrow> int \<Rightarrow> 'a list" where
  "slice_from xs b =
     (let len = int (length xs);
          k = (if b < 0 then max (len + b) 0 else min b len)
      in drop (nat k) xs)"

text \<open>\<open>String.prototype.toLowerCase\<close> and \<open>includes\<close>, on ASCII strings.\<close>

definition lower_char :: "char \<Rightarrow> char" where
  "lower_char c =
     (let n = (of_char c :: nat)
      in if 65 \<le> n \<and> n \<le> 90 then char_of (n + 32) else c)"

definition toLowerCase :: "string \<Rightarrow> string" where
  "toLowerCase s = map lower_char s"

fun starts_with :: "string \<Rightarrow> string \<Rightarrow> bool" where
  "starts_with s [] = True"
| "starts_with [] (p # ps) = False"
| "starts_with (c # cs) (p # ps) = (c = p \<and> starts_with cs ps)"

fun str_includes :: "string \<Rightarrow> string \<Rightarrow> bool" where
  "str_includes [] p = (p = [])"
| "str_includes (c # cs) p = (starts_with (c # cs) p \<or> str_includes cs p)"

section \<open>Capture: data model\<close>

datatype log_level = Log | Warn | Error | Info | Debug

record ConsoleLogEntry =
  log_timestamp :: int
  level :: log_level
  message :: string
  args :: "string list"
  source :: "string option"

text \<open>
  \<open>Record<string, string>\<close>: a JavaScript object used as a dictionary, kept as the list of
  its own properties in insertion order. \<open>obj_set\<close> is the assignment \<open>result[key] = value\<close>.
\<close>

type_synonym headers_obj = "(string \<times> string) list"

fun obj_set :: "headers_obj \<Rightarrow> string \<Rightarrow> string \<Rightarrow> headers_obj" where
  "obj_set [] k v = [(k, v)]"
| "obj_set ((k', v') # kvs) k v = (if k' = k then (k, v) # kvs else (k', v') # obj_set kvs k v)"

datatype js_number = Num int | NaN

record NetworkRequestEntry =
  timestamp :: int
  entry_method :: string
  url :: string
  status :: "int option"
  duration :: "int option"
  req_size :: "js_number option"
  requestHeaders :: "headers_obj option"
  responseHeaders :: "headers_obj option"
  error :: "string option"

text \<open>\<open>excludeUrls\<close> holds regular expressions; each is kept as its \<open>test\<close> predicate.\<close>

record CaptureOptions =
  maxConsoleLogs :: int
  maxNetworkRequests :: int
  sensitiveParams :: "string list"
  excludeUrls :: "(string \<Rightarrow> bool) list"
  includeRequestHeaders :: bool
  includeResponseHeaders :: bool

text \<open>The state of a \<open>BugReportCapture\<close> object that the modelled methods read and write.\<close>

record capture =
  consoleLogs :: "ConsoleLogEntry list"
  networkRequests :: "NetworkRequestEntry list"
  options :: CaptureOptions

definition default_options :: CaptureOptions where
  "default_options =
     \<lparr> maxConsoleLogs = 50, maxNetworkRequests = 25,
       sensitiveParams = [''token'', ''key'', ''secret'', ''password'', ''auth'',
                          ''authorization'', ''api-key'', ''apikey''],
       excludeUrls = [], includeRequestHeaders = False, includeResponseHeaders = False \<rparr>"

text \<open>The constructor: both buffers start empty.\<close>

definition new_capture :: "CaptureOptions \<Rightarrow> capture" where
  "new_capture opts = \<lparr> consoleLogs = [], networkRequests = [], options = opts \<rparr>"

text \<open>\<open>updateOptions\<close> replaces the options; the buffers are not touched.\<close>

definition updateOptions :: "CaptureOptions \<Rightarrow> capture \<Rightarrow> capture" where
  "updateOptions opts c = c\<lparr> options := opts \<rparr>"

section \<open>Ring buffers\<close>

text \<open>
  \<open>addConsoleLog\<close> and \<open>addNetworkRequest\<close>: push, then, if the array is longer than the
  configured maximum, replace it by \<open>slice(-max)\<close>.
\<close>

definition push_bounded :: "int \<Rightarrow> 'a list \<Rightarrow> 'a \<Rightarrow> 'a list" where
  "push_bounded cap xs x =
     (let ys = xs @ [x]
      in if int (length ys) > cap then slice_from ys (- cap) else ys)"

definition addConsoleLog :: "ConsoleLogEntry \<Rightarrow> capture \<Rightarrow> capture" where
  "addConsoleLog entry c =
     c\<lparr> consoleLogs := push_bounded (maxConsoleLogs (options c)) (consoleLogs c) entry \<rparr>"

definition addNetworkRequest :: "NetworkRequestEntry \<Rightarrow> capture \<Rightarrow> capture" where
  "addNetworkRequest request c =
     c\<lparr> networkRequests :=
          push_bounded (maxNetworkRequests (options c)) (networkRequests c) request \<rparr>"

text \<open>A sequence of pushes, oldest first.\<close>

definition addConsoleLogs :: "ConsoleLogEntry list \<Rightarrow> capture \<Rightarrow> capture" where
  "addConsoleLogs es c = foldl (\<lambda>c e. addConsoleLog e c) c es"

definition addNetworkRequests :: "NetworkRequestEntry list \<Rightarrow> capture \<Rightarrow> capture" where
  "addNetworkRequests rs c = foldl (\<lambda>c r. addNetworkRequest r c) c rs"

definition last_n :: "nat \<Rightarrow> 'a list \<Rightarrow> 'a list" where
  "last_n k xs = drop (length xs - k) xs"

section \<open>Redaction policy\<close>

text \<open>
  The platform's \<open>URL\<close> class is not code of this repository. A parsed URL is kept as
  the serialised part before the query, the name-value list behind \<open>searchParams\<close>, and
  the fragment. The constructor and the serialiser are parameters: \<open>newURL\<close> is
  \<open>new URL(url, window.location.origin)\<close>, with \<open>None\<close> when it throws, and
  \<open>URL_toString\<close> is \<open>toString()\<close>.
\<close>

record URL =
  href_base :: string
  searchParams :: "(string \<times> string) list"
  hash :: string

record platform =
  newURL :: "string \<Rightarrow> URL option"
  URL_toString :: "URL \<Rightarrow> string"

text \<open>
  \<open>URLSearchParams.has(name)\<close> compares names exactly. \<open>URLSearchParams.set(name, value)\<close>
  sets the value of the first pair of that name and removes the other pairs of that name,
  or appends a new pair when there is none.
\<close>

definition sp_has :: "(string \<times> string) list \<Rightarrow> string \<Rightarrow> bool" where
  "sp_has ps n = list_ex (\<lambda>p. fst p = n) ps"

fun sp_set :: "(string \<times> string) list \<Rightarrow> string \<Rightarrow> string \<Rightarrow> (string \<times> string) list" where
  "sp_set [] n v = [(n, v)]"
| "sp_set ((k, w) # ps) n v =
     (if k = n then (n, v) # filter (\<lambda>p. fst p \<noteq> n) ps else (k, w) # sp_set ps n v)"

definition REDACTED :: string where
  "REDACTED = ''[REDACTED]''"

text \<open>The body of the \<open>forEach\<close> in \<open>sanitizeUrl\<close>, for one entry of \<open>sensitiveParams\<close>.\<close>

definition redact_param :: "URL \<Rightarrow> string \<Rightarrow> URL" where
  "redact_param urlObj param =
     (if sp_has (searchParams urlObj) param
      then urlObj\<lparr> searchParams := sp_set (searchParams urlObj) param REDACTED \<rparr>
      else urlObj)"

definition sanitizeUrl_obj :: "capture \<Rightarrow> URL \<Rightarrow> URL" where
  "sanitizeUrl_obj c urlObj = foldl redact_param urlObj (sensitiveParams (options c))"

definition sanitizeUrl :: "platform \<Rightarrow> capture \<Rightarrow> string \<Rightarrow> string" where
  "sanitizeUrl P c u =
     (case newURL P u of
        None \<Rightarrow> u
      | Some urlObj \<Rightarrow> URL_toString P (sanitizeUrl_obj c urlObj))"

text \<open>
  The deny-list match as the specification words it: a key is sensitive when it contains,
  case-insensitively, an entry of the configured list.
\<close>

definition spec_isSensitiveKey :: "string list \<Rightarrow> string \<Rightarrow> bool" where
  "spec_isSensitiveKey deny name =
     list_ex (\<lambda>param. str_includes (toLowerCase name) (toLowerCase param)) deny"

definition shouldExcludeUrl :: "capture \<Rightarrow> string \<Rightarrow> bool" where
  "shouldExcludeUrl c u = list_ex (\<lambda>pattern. pattern u) (excludeUrls (options c))"

subsection \<open>Headers\<close>

definition isSensitiveHeader :: "capture \<Rightarrow> string \<Rightarrow> bool" where
  "isSensitiveHeader c name =
     (let lowerName = toLowerCase name
      in list_ex (\<lambda>param. str_includes lowerName (toLowerCase param)
                         \<or> lowerName = ''authorization'' \<or> lowerName = ''cookie'')
           (sensitiveParams (options c)))"

text \<open>
  The argument of \<open>extractHeaders\<close>: a falsy value, a \<open>Headers\<close> instance (the pairs its
  \<open>forEach\<close> visits), a plain object (its \<open>Object.entries\<close>; a value is a string or
  something else), or another truthy value.
\<close>

datatype jsval = JString string | JOther

datatype headers_arg =
    NoHeaders
  | HeadersInstance "(string \<times> string) list"
  | HeadersObject "(string \<times> jsval) list"
  | HeadersOther

definition headersToObject :: "capture \<Rightarrow> (string \<times> string) list \<Rightarrow> headers_obj" where
  "headersToObject c hs =
     foldl (\<lambda>result (key, v). if \<not> isSensitiveHeader c key then obj_set result key v else result)
       [] hs"

definition nonempty_or_undefined :: "headers_obj \<Rightarrow> headers_obj option" where
  "nonempty_or_undefined result = (if length result > 0 then Some result else None)"

fun extractHeaders :: "capture \<Rightarrow> headers_arg \<Rightarrow> headers_obj option" where
  "extractHeaders c NoHeaders = None"
| "extractHeaders c (HeadersInstance hs) = nonempty_or_undefined (headersToObject c hs)"
| "extractHeaders c (HeadersObject es) =
     nonempty_or_undefined
       (foldl (\<lambda>result (key, v).
                 case v of
                   JString s \<Rightarrow> if \<not> isSensitiveHeader c key then obj_set result key s else result
                 | JOther \<Rightarrow> result)
          [] es)"
| "extractHeaders c HeadersOther = None"

text \<open>\<open>String.prototype.split\<close> with a non-empty separator.\<close>

function split_aux :: "string \<Rightarrow> string \<Rightarrow> string \<Rightarrow> string list" where
  "split_aux sep acc [] = [rev acc]"
| "split_aux sep acc (c # cs) =
     (if sep \<noteq> [] \<and> starts_with (c # cs) sep
      then rev acc # split_aux sep [] (drop (length sep) (c # cs))
      else split_aux sep (c # acc) cs)"
  by pat_completeness auto
termination
  by (relation "measure (\<lambda>(sep, acc, s). length s)") (auto simp: neq_Nil_conv)

definition split :: "string \<Rightarrow> string \<Rightarrow> string list" where
  "split s sep = split_aux sep [] s"

text \<open>
  \<open>getXHRResponseHeaders\<close>, from the string that \<open>getAllResponseHeaders()\<close> returned
  (\<open>None\<close> when that call throws). \<open>getXHRRequestHeaders\<close> always returns \<open>undefined\<close>.
\<close>

definition getXHRResponseHeaders :: "capture \<Rightarrow> string option \<Rightarrow> headers_obj option" where
  "getXHRResponseHeaders c raw =
     (case raw of
        None \<Rightarrow> None
      | Some headers \<Rightarrow>
          if headers = [] then None
          else nonempty_or_undefined
                 (foldl (\<lambda>result line.
                           case split line '': '' of
                             [] \<Rightarrow> result
                           | key # valueParts \<Rightarrow>
                               if key \<noteq> [] \<and> length valueParts > 0 \<and> \<not> isSensitiveHeader c key
                               then obj_set result key (join '': '' valueParts)
                               else result)
                    [] (split headers [CHR 0x0D, CHR 0x0A])))"

section \<open>Network interceptor\<close>

text \<open>\<open>parseInt(s, 10)\<close>: leading white space, an optional sign, then the longest run of digits.\<close>

definition is_space :: "char \<Rightarrow> bool" where
  "is_space c = (c = CHR '' '' \<or> (9 \<le> (of_char c :: nat) \<and> (of_char c :: nat) \<le> 13))"

definition is_digit :: "char \<Rightarrow> bool" where
  "is_digit c = (48 \<le> (of_char c :: nat) \<and> (of_char c :: nat) \<le> 57)"

definition digits_value :: "string \<Rightarrow> nat" where
  "digits_value ds = foldl (\<lambda>a d. 10 * a + (of_char d - 48)) 0 ds"

definition parseInt10 :: "string \<Rightarrow> js_number" where
  "parseInt10 s =
     (let t = dropWhile is_space s;
          neg = (t \<noteq> [] \<and> hd t = CHR ''-'');
          u = (if t \<noteq> [] \<and> (hd t = CHR ''-'' \<or> hd t = CHR ''+'') then tl t else t);
          ds = takeWhile is_digit u
      in if ds = [] then NaN
         else Num ((if neg then - 1 else 1) * int (digits_value ds)))"

text \<open>
  A \<open>Response\<close>: status, status text, the pairs of its \<open>Headers\<close>, and how \<open>json()\<close>
  settles (\<open>Inl\<close> when it rejects because the body is not JSON). A parsed body is the
  value \<open>null\<close> or an object. An object is kept as the adapters read it: the truthiness
  of its \<open>success\<close> property and its string-valued properties. Reading a property of
  \<open>null\<close> throws a \<open>TypeError\<close>, whose message is the engine's: \<open>JNull m\<close> is the body
  \<open>null\<close> on an engine whose message is \<open>m\<close>. Other JSON values, and property values
  of other types, are outside this model.
\<close>

datatype json = JNull string | JObject bool "(string \<times> string) list"

record Response =
  resp_status :: int
  statusText :: string
  resp_headers :: "(string \<times> string) list"
  json_body :: "thrown + json"

definition ok :: "Response \<Rightarrow> bool" where
  "ok r = (200 \<le> resp_status r \<and> resp_status r \<le> 299)"

text \<open>\<open>Headers.get(name)\<close>: header names compare case-insensitively.\<close>

definition headers_get :: "(string \<times> string) list \<Rightarrow> string \<Rightarrow> string option" where
  "headers_get hs n = map_of (map (\<lambda>(k, v). (toLowerCase k, v)) hs) (toLowerCase n)"

definition getResponseSize :: "Response \<Rightarrow> js_number option" where
  "getResponseSize response =
     (case headers_get (resp_headers response) ''content-length'' of
        None \<Rightarrow> None
      | Some contentLength \<Rightarrow> if contentLength = [] then None else Some (parseInt10 contentLength))"

text \<open>
  The first argument of \<open>fetch\<close>: a string, a \<open>Request\<close> (its url, method and headers), or
  another value (its \<open>String(...)\<close> rendering). The second argument, when given, may carry
  a method and headers.
\<close>

datatype fetch_input =
    InputString string
  | InputRequest string string "(string \<times> string) list"
  | InputOther string

record RequestInit =
  init_method :: "string option"
  init_headers :: headers_arg

fun input_url :: "fetch_input \<Rightarrow> string" where
  "input_url (InputString s) = s"
| "input_url (InputRequest u m hs) = u"
| "input_url (InputOther s) = s"

fun input_method :: "fetch_input \<Rightarrow> string" where
  "input_method (InputRequest u m hs) = m"
| "input_method _ = ''GET''"

fun input_headers :: "fetch_input \<Rightarrow> headers_arg" where
  "input_headers (InputRequest u m hs) = HeadersInstance hs"
| "input_headers _ = NoHeaders"

definition request_method :: "fetch_input \<Rightarrow> RequestInit option \<Rightarrow> string" where
  "request_method input init =
     (case init of
        None \<Rightarrow> input_method input
      | Some i \<Rightarrow> (case init_method i of
                    None \<Rightarrow> input_method input
                  | Some m \<Rightarrow> if m = [] then input_method input else m))"

definition request_headers_arg :: "fetch_input \<Rightarrow> RequestInit option \<Rightarrow> headers_arg" where
  "request_headers_arg input init =
     (case init of
        None \<Rightarrow> input_headers input
      | Some i \<Rightarrow> (if init_headers i = NoHeaders then input_headers input else init_headers i))"

definition thrown_message :: "thrown \<Rightarrow> string \<Rightarrow> string" where
  "thrown_message e d = (case e of JSError m \<Rightarrow> m | JSThrown s \<Rightarrow> d)"

text \<open>
  The wrapper installed over \<open>window.fetch\<close>. \<open>startTime\<close> and \<open>endTime\<close> are the two
  readings of \<open>Date.now()\<close>; \<open>outcome\<close> is how the promise of the original \<open>fetch\<close>
  settles. The result is the new capture state and how the wrapper's own promise settles.
\<close>

definition fetch_wrapper ::
  "platform \<Rightarrow> int \<Rightarrow> int \<Rightarrow> fetch_input \<Rightarrow> RequestInit option \<Rightarrow> Response settled
     \<Rightarrow> capture \<Rightarrow> capture \<times> Response settled" where
  "fetch_wrapper P startTime endTime input init outcome c =
     (let u = input_url input;
          m = request_method input init
      in if shouldExcludeUrl c u then (c, outcome)
         else
           let reqHeaders =
                 (if includeRequestHeaders (options c)
                  then extractHeaders c (request_headers_arg input init) else None)
           in case outcome of
                Fulfilled response \<Rightarrow>
                  (addNetworkRequest
                     \<lparr> timestamp = startTime, entry_method = m, url = sanitizeUrl P c u,
                       status = Some (resp_status response),
                       duration = Some (endTime - startTime),
                       req_size = getResponseSize response,
                       requestHeaders = reqHeaders,
                       responseHeaders =
                         (if includeResponseHeaders (options c)
                          then Some (headersToObject c (resp_headers response)) else None),
                       error = None \<rparr> c,
                   Fulfilled response)
              | Rejected err \<Rightarrow>
                  (addNetworkRequest
                     \<lparr> timestamp = startTime, entry_method = m, url = sanitizeUrl P c u,
                       status = Some 0,
                       duration = Some (endTime - startTime),
                       req_size = None,
                       requestHeaders = reqHeaders,
                       responseHeaders = None,
                       error = Some (thrown_message err ''Network error'') \<rparr> c,
                   Rejected err))"

text \<open>
  The \<open>loadend\<close> listener that the wrapper over \<open>XMLHttpRequest.prototype.open\<close> adds for
  a URL that is not excluded. Of the request object it reads the status, the string of
  \<open>getAllResponseHeaders()\<close> and the \<open>content-length\<close> header.
\<close>

record xhr =
  xhr_status :: int
  allResponseHeaders :: "string option"
  xhr_contentLength :: "string option"

definition getXHRResponseSize :: "xhr \<Rightarrow> js_number option" where
  "getXHRResponseSize x =
     (case xhr_contentLength x of
        None \<Rightarrow> None
      | Some contentLength \<Rightarrow> if contentLength = [] then None else Some (parseInt10 contentLength))"

definition xhr_loadend ::
  "platform \<Rightarrow> int \<Rightarrow> int \<Rightarrow> string \<Rightarrow> string \<Rightarrow> xhr \<Rightarrow> capture \<Rightarrow> capture" where
  "xhr_loadend P startTime endTime m urlString x c =
     addNetworkRequest
       \<lparr> timestamp = startTime, entry_method = m, url = sanitizeUrl P c urlString,
         status = Some (xhr_status x),
         duration = Some (endTime - startTime),
         req_size = getXHRResponseSize x,
         requestHeaders = None,
         responseHeaders =
           (if includeResponseHeaders (options c)
            then getXHRResponseHeaders c (allResponseHeaders x) else None),
         error = (if xhr_status x = 0 then Some ''Network error'' else None) \<rparr> c"

section \<open>Screenshot\<close>

text \<open>
  The document is the inline \<open>style.display\<close> of each element. \<open>querySelectorAll\<close> is
  the platform's: it returns the matching elements or throws on a selector it cannot
  parse. \<open>raster\<close> is how the promise of \<open>html2canvas\<close> settles; a canvas is its
  \<open>toDataURL\<close>, which returns the encoded image or throws.
\<close>

type_synonym element = nat

type_synonym document = "element \<Rightarrow> string"

datatype canvas = Canvas "string \<Rightarrow> real option \<Rightarrow> thrown + string"

fun toDataURL :: "canvas \<Rightarrow> string \<Rightarrow> real option \<Rightarrow> thrown + string" where
  "toDataURL (Canvas f) mime q = f mime q"

record ScreenshotOptions =
  excludeSelectors :: "string list option"
  scale :: "real option"
  format :: "string option"
  quality :: "real option"
  captureViewport :: "bool option"

definition defaultExcludeSelectors :: "string list" where
  "defaultExcludeSelectors =
     [''[data-private]'', ''[data-bug-reporter-hide]'', ''[data-bug-reporter-widget]'',
      ''.br-bug-reporter'', ''.bug-reporter-popup'']"

definition all_excludeSelectors :: "ScreenshotOptions option \<Rightarrow> string list" where
  "all_excludeSelectors opts =
     defaultExcludeSelectors @
       (case opts of None \<Rightarrow> [] | Some o' \<Rightarrow> (case excludeSelectors o' of None \<Rightarrow> [] | Some xs \<Rightarrow> xs))"

text \<open>The first \<open>forEach\<close>: remember each element's display value, then hide it.\<close>

definition hide_elements ::
  "element list \<Rightarrow> document \<Rightarrow> document \<times> (element \<rightharpoonup> string)" where
  "hide_elements els d =
     foldl (\<lambda>(d', originalStyles) el. (d'(el := ''none''), originalStyles(el \<mapsto> d' el)))
       (d, Map.empty) els"

text \<open>The second \<open>forEach\<close>: \<open>originalStyles.get(el) || ''\<close>.\<close>

definition restore_elements ::
  "element list \<Rightarrow> (element \<rightharpoonup> string) \<Rightarrow> document \<Rightarrow> document" where
  "restore_elements els originalStyles d =
     foldl (\<lambda>d' el. d'(el := str_or (originalStyles el) [])) d els"

definition image_format :: "ScreenshotOptions option \<Rightarrow> string" where
  "image_format opts =
     (case opts of None \<Rightarrow> ''png'' | Some o' \<Rightarrow> str_or (format o') ''png'')"

definition image_quality :: "ScreenshotOptions option \<Rightarrow> real" where
  "image_quality opts =
     (case opts of
        None \<Rightarrow> 8 / 10
      | Some o' \<Rightarrow> (case quality o' of None \<Rightarrow> 8 / 10 | Some q \<Rightarrow> if q = 0 then 8 / 10 else q))"

text \<open>
  \<open>captureScreenshot\<close>. The result is the document afterwards, the returned string
  (\<open>None\<close> for \<open>undefined\<close>) and the error handed to \<open>console.error\<close>, if any.
\<close>

text \<open>
  The two stages of the \<open>try\<close> block after the elements were found: hiding, rasterising
  and restoring, then encoding. A rejected raster leaves the \<open>try\<close> block at the \<open>await\<close>,
  so the \<open>catch\<close> runs with the document as the hiding left it.
\<close>

definition encode_canvas ::
  "canvas \<Rightarrow> ScreenshotOptions option \<Rightarrow> document \<Rightarrow> document \<times> string option \<times> thrown option" where
  "encode_canvas cv opts d =
     (let fmt = image_format opts
      in case toDataURL cv (''image/'' @ fmt)
                (if fmt = ''jpeg'' then Some (image_quality opts) else None) of
           Inl err \<Rightarrow> (d, None, Some err)
         | Inr data \<Rightarrow> (d, Some data, None))"

definition capture_hidden ::
  "canvas settled \<Rightarrow> ScreenshotOptions option \<Rightarrow> element list \<Rightarrow> document
     \<Rightarrow> document \<times> string option \<times> thrown option" where
  "capture_hidden raster opts elementsToHide d =
     (let (d1, originalStyles) = hide_elements elementsToHide d
      in case raster of
           Rejected err \<Rightarrow> (d1, None, Some err)
         | Fulfilled cv \<Rightarrow>
             encode_canvas cv opts (restore_elements elementsToHide originalStyles d1))"

definition captureScreenshot ::
  "bool \<Rightarrow> (string \<Rightarrow> thrown + element list) \<Rightarrow> canvas settled \<Rightarrow> ScreenshotOptions option
     \<Rightarrow> document \<Rightarrow> document \<times> string option \<times> thrown option" where
  "captureScreenshot has_window querySelectorAll raster opts d =
     (if \<not> has_window then (d, None, None)
      else
        case querySelectorAll (join '', '' (all_excludeSelectors opts)) of
          Inl err \<Rightarrow> (d, None, Some err)
        | Inr elementsToHide \<Rightarrow> capture_hidden raster opts elementsToHide d)"

section \<open>Buffers as arrays in a store\<close>

text \<open>
  For the accessors that hand arrays to callers, arrays are objects in a store: an
  address holds the array's current elements, \<open>push\<close> changes the array at its address,
  and \<open>slice\<close> and the spread \<open>[...xs]\<close> allocate a new array. Elements are copied by
  reference: the copy is shallow.
\<close>

type_synonym addr = nat

record 'a store =
  cells :: "addr \<Rightarrow> 'a list"
  fresh :: addr

definition alloc :: "'a list \<Rightarrow> 'a store \<Rightarrow> addr \<times> 'a store" where
  "alloc xs s = (fresh s, s\<lparr> cells := (cells s)(fresh s := xs), fresh := Suc (fresh s) \<rparr>)"

text \<open>Any mutation of the array at an address: afterwards it holds \<open>xs\<close>.\<close>

definition array_write :: "addr \<Rightarrow> 'a list \<Rightarrow> 'a store \<Rightarrow> 'a store" where
  "array_write a xs s = s\<lparr> cells := (cells s)(a := xs) \<rparr>"

record capture_h =
  log_store :: "ConsoleLogEntry store"
  net_store :: "NetworkRequestEntry store"
  consoleLogs_ref :: addr
  networkRequests_ref :: addr
  h_options :: CaptureOptions

text \<open>The contents of the two private buffers.\<close>

definition h_consoleLogs :: "capture_h \<Rightarrow> ConsoleLogEntry list" where
  "h_consoleLogs c = cells (log_store c) (consoleLogs_ref c)"

definition h_networkRequests :: "capture_h \<Rightarrow> NetworkRequestEntry list" where
  "h_networkRequests c = cells (net_store c) (networkRequests_ref c)"

definition h_addConsoleLog :: "ConsoleLogEntry \<Rightarrow> capture_h \<Rightarrow> capture_h" where
  "h_addConsoleLog entry c =
     (let a = consoleLogs_ref c;
          s1 = array_write a (cells (log_store c) a @ [entry]) (log_store c)
      in if int (length (cells s1 a)) > maxConsoleLogs (h_options c)
         then (let (a', s2) = alloc (slice_from (cells s1 a) (- maxConsoleLogs (h_options c))) s1
               in c\<lparr> log_store := s2, consoleLogs_ref := a' \<rparr>)
         else c\<lparr> log_store := s1 \<rparr>)"

definition h_addNetworkRequest :: "NetworkRequestEntry \<Rightarrow> capture_h \<Rightarrow> capture_h" where
  "h_addNetworkRequest request c =
     (let a = networkRequests_ref c;
          s1 = array_write a (cells (net_store c) a @ [request]) (net_store c)
      in if int (length (cells s1 a)) > maxNetworkRequests (h_options c)
         then (let (a', s2) = alloc (slice_from (cells s1 a) (- maxNetworkRequests (h_options c))) s1
               in c\<lparr> net_store := s2, networkRequests_ref := a' \<rparr>)
         else c\<lparr> net_store := s1 \<rparr>)"

text \<open>Pushes into the two buffers, in any interleaving, oldest first.\<close>

datatype push = ConsolePush ConsoleLogEntry | NetworkPush NetworkRequestEntry

fun h_push :: "push \<Rightarrow> capture_h \<Rightarrow> capture_h" where
  "h_push (ConsolePush entry) c = h_addConsoleLog entry c"
| "h_push (NetworkPush request) c = h_addNetworkRequest request c"

definition h_pushes :: "push list \<Rightarrow> capture_h \<Rightarrow> capture_h" where
  "h_pushes ps c = foldl (\<lambda>c p. h_push p c) c ps"

text \<open>\<open>getConsoleLogs\<close> and \<open>getNetworkRequests\<close>: the address of a new array.\<close>

definition getConsoleLogs :: "capture_h \<Rightarrow> addr \<times> capture_h" where
  "getConsoleLogs c =
     (let (a, s) = alloc (h_consoleLogs c) (log_store c) in (a, c\<lparr> log_store := s \<rparr>))"

definition getNetworkRequests :: "capture_h \<Rightarrow> addr \<times> capture_h" where
  "getNetworkRequests c =
     (let (a, s) = alloc (h_networkRequests c) (net_store c) in (a, c\<lparr> net_store := s \<rparr>))"

text \<open>
  The report. \<open>additionalData\<close> is a partial report: a field that is present overrides
  the default of the same name, the two arrays included.
\<close>

record BugReportData =
  report_timestamp :: int
  report_url :: string
  userAgent :: string
  viewport :: "int \<times> int"
  report_consoleLogs :: addr
  report_networkRequests :: addr
  screenshot :: "string option"
  userId :: "string option"
  userEmail :: "string option"
  title :: "string option"
  description :: "string option"
  tags :: "string list option"
  priority :: "string option"
  category :: "string option"
  reproductionSteps :: "string list option"
  expectedBehavior :: "string option"
  actualBehavior :: "string option"

record PartialBugReportData =
  p_timestamp :: "int option"
  p_url :: "string option"
  p_userAgent :: "string option"
  p_viewport :: "(int \<times> int) option"
  p_consoleLogs :: "addr option"
  p_networkRequests :: "addr option"
  p_screenshot :: "string option option"
  p_userId :: "string option"
  p_userEmail :: "string option"
  p_title :: "string option"
  p_description :: "string option"
  p_tags :: "string list option"
  p_priority :: "string option"
  p_category :: "string option"
  p_reproductionSteps :: "string list option"
  p_expectedBehavior :: "string option"
  p_actualBehavior :: "string option"

definition no_additionalData :: PartialBugReportData where
  "no_additionalData =
     \<lparr> p_timestamp = None, p_url = None, p_userAgent = None, p_viewport = None,
       p_consoleLogs = None, p_networkRequests = None, p_screenshot = None,
       p_userId = None, p_userEmail = None, p_title = None, p_description = None,
       p_tags = None, p_priority = None, p_category = None, p_reproductionSteps = None,
       p_expectedBehavior = None, p_actualBehavior = None \<rparr>"

text \<open>What \<open>captureReport\<close> reads from the browser.\<close>

record browser =
  now :: int
  location_href :: string
  navigator_userAgent :: string
  innerWidth :: int
  innerHeight :: int

definition override :: "'a option \<Rightarrow> 'a \<Rightarrow> 'a" where
  "override p d = (case p of None \<Rightarrow> d | Some v \<Rightarrow> v)"

text \<open>
  \<open>captureReport\<close>, given the string that \<open>captureScreenshot()\<close> returned. The two
  spreads allocate before \<open>additionalData\<close> is merged.
\<close>

definition captureReport ::
  "browser \<Rightarrow> string option \<Rightarrow> PartialBugReportData \<Rightarrow> capture_h \<Rightarrow> BugReportData \<times> capture_h" where
  "captureReport b shot additionalData c =
     (let (la, ls) = alloc (h_consoleLogs c) (log_store c);
          (na, ns) = alloc (h_networkRequests c) (net_store c)
      in (\<lparr> report_timestamp = override (p_timestamp additionalData) (now b),
            report_url = override (p_url additionalData) (location_href b),
            userAgent = override (p_userAgent additionalData) (navigator_userAgent b),
            viewport = override (p_viewport additionalData) (innerWidth b, innerHeight b),
            report_consoleLogs = override (p_consoleLogs additionalData) la,
            report_networkRequests = override (p_networkRequests additionalData) na,
            screenshot = override (p_screenshot additionalData) shot,
            userId = p_userId additionalData,
            userEmail = p_userEmail additionalData,
            title = p_title additionalData,
            description = p_description additionalData,
            tags = p_tags additionalData,
            priority = p_priority additionalData,
            category = p_category additionalData,
            reproductionSteps = p_reproductionSteps additionalData,
            expectedBehavior = p_expectedBehavior additionalData,
            actualBehavior = p_actualBehavior additionalData \<rparr>,
          c\<lparr> log_store := ls, net_store := ns \<rparr>))"

text \<open>
  Every address the capture object holds has been allocated. The constructor and every
  method keep this.
\<close>

definition wf_capture :: "capture_h \<Rightarrow> bool" where
  "wf_capture c =
     (consoleLogs_ref c < fresh (log_store c) \<and> networkRequests_ref c < fresh (net_store c))"

definition new_capture_h :: "CaptureOptions \<Rightarrow> capture_h" where
  "new_capture_h opts =
     \<lparr> log_store = \<lparr> cells = (\<lambda>a. []), fresh = 1 \<rparr>,
       net_store = \<lparr> cells = (\<lambda>a. []), fresh = 1 \<rparr>,
       consoleLogs_ref = 0, networkRequests_ref = 0, h_options = opts \<rparr>"

section \<open>Destination adapters\<close>

record SubmissionResponse =
  success :: bool
  issueId :: "string option"
  issueUrl :: "string option"
  resp_message :: "string option"
  resp_error :: "string option"

text \<open>Decimal rendering of a number inside a template string.\<close>

fun show_nat :: "nat \<Rightarrow> string" where
  "show_nat n =
     (if n < 10 then [char_of (48 + n)] else show_nat (n div 10) @ [char_of (48 + n mod 10)])"

declare show_nat.simps [simp del]

definition show_int :: "int \<Rightarrow> string" where
  "show_int i = (if i < 0 then CHR ''-'' # show_nat (nat (- i)) else show_nat (nat i))"

text \<open>
  One pass through the \<open>try\<close> block of \<open>makeRequest\<close>, from how the underlying \<open>fetch\<close>
  settled: a response that is not \<open>ok\<close> throws a new \<open>Error\<close> inside the \<open>try\<close>, and the
  \<open>catch\<close> turns whatever was thrown into an \<open>Error\<close>.
\<close>

definition as_Error :: "thrown \<Rightarrow> thrown" where
  "as_Error e = (case e of JSError m \<Rightarrow> JSError m | JSThrown s \<Rightarrow> JSError s)"

definition attempt :: "Response settled \<Rightarrow> thrown + Response" where
  "attempt outcome =
     (case outcome of
        Rejected e \<Rightarrow> Inl (as_Error e)
      | Fulfilled response \<Rightarrow>
          if \<not> ok response
          then Inl (JSError (''HTTP '' @ show_int (resp_status response) @ '': '' @ statusText response))
          else Inr response)"

text \<open>
  The loop of \<open>makeRequest\<close>. \<open>fetch k\<close> is how the \<open>k\<close>-th underlying call settles
  (counted from 0). The result carries the number of underlying calls made and the
  delays waited between them, in milliseconds.
\<close>

function makeRequest_loop ::
  "(nat \<Rightarrow> Response settled) \<Rightarrow> int \<Rightarrow> nat \<Rightarrow> thrown option \<Rightarrow> nat list
     \<Rightarrow> (thrown + Response) \<times> nat \<times> nat list" where
  "makeRequest_loop fetch retries i lastError delays =
     (if int i < retries
      then (case attempt (fetch i) of
              Inr response \<Rightarrow> (Inr response, Suc i, delays)
            | Inl err \<Rightarrow>
                makeRequest_loop fetch retries (Suc i) (Some err)
                  (if int i < retries - 1 then delays @ [2 ^ i * 1000] else delays))
      else (Inl (case lastError of
                   Some e \<Rightarrow> e
                 | None \<Rightarrow> JSError ''Request failed after retries''), i, delays))"
  by pat_completeness auto
termination
  by (relation "measure (\<lambda>(fetch, retries, i, lastError, delays). nat (retries - int i))") auto

declare makeRequest_loop.simps [simp del]

definition makeRequest ::
  "(nat \<Rightarrow> Response settled) \<Rightarrow> int \<Rightarrow> (thrown + Response) \<times> nat \<times> nat list" where
  "makeRequest fetch retries = makeRequest_loop fetch retries 0 None []"

text \<open>The \<open>a || b || c || undefined\<close> chains over the properties of a parsed body.\<close>

fun first_truthy :: "string option list \<Rightarrow> string option" where
  "first_truthy [] = None"
| "first_truthy (None # xs) = first_truthy xs"
| "first_truthy (Some s # xs) = (if s = [] then first_truthy xs else Some s)"

definition failure :: "string \<Rightarrow> SubmissionResponse" where
  "failure msg =
     \<lparr> success = False, issueId = None, issueUrl = None, resp_message = None,
       resp_error = Some msg \<rparr>"

text \<open>
  What \<open>submitViaProxy\<close> makes of the parsed body. On \<open>null\<close> the test
  \<open>!result.success\<close> throws, and the \<open>catch\<close> returns the error's message.
\<close>

fun proxy_result :: "json \<Rightarrow> SubmissionResponse" where
  "proxy_result (JNull m) = failure m"
| "proxy_result (JObject b ps) =
     (if \<not> b
      then failure (str_or (map_of ps ''error'') ''Proxy endpoint returned error'')
      else \<lparr> success = True, issueId = map_of ps ''issueId'',
             issueUrl = map_of ps ''issueUrl'',
             resp_message = Some (str_or (map_of ps ''message'')
                                    ''Report submitted successfully''),
             resp_error = None \<rparr>)"

text \<open>\<open>submitViaProxy\<close>: one \<open>makeRequest\<close> with the default of 3 attempts.\<close>

definition submitViaProxy ::
  "(nat \<Rightarrow> Response settled) \<Rightarrow> SubmissionResponse \<times> nat \<times> nat list" where
  "submitViaProxy fetch =
     (case makeRequest fetch 3 of
        (Inl err, n, ds) \<Rightarrow>
          (failure (thrown_message err ''Failed to submit via proxy''), n, ds)
      | (Inr response, n, ds) \<Rightarrow>
          (case json_body response of
             Inl err \<Rightarrow> (failure (thrown_message err ''Failed to submit via proxy''), n, ds)
           | Inr result \<Rightarrow> (proxy_result result, n, ds)))"

text \<open>
  The webhook adapter's configuration, as \<open>submit\<close> and \<open>validateConfig\<close> read it.
  \<open>transformPayload\<close> is the caller's function; \<open>Some e\<close> says that it throws \<open>e\<close>.
\<close>

record WebhookConfig =
  cfg_mode :: "string option"
  cfg_endpoint :: "string option"
  cfg_url :: "string option"
  cfg_method :: "string option"
  cfg_retries :: "int option"
  transformPayload_throws :: "thrown option"

definition trim :: "string \<Rightarrow> string" where
  "trim s = rev (dropWhile is_space (rev (dropWhile is_space s)))"

definition isProxyMode :: "WebhookConfig \<Rightarrow> bool" where
  "isProxyMode config = (cfg_mode config = Some ''proxy'' \<and> cfg_endpoint config \<noteq> None)"

definition validateProxyConfig :: "WebhookConfig \<Rightarrow> bool" where
  "validateProxyConfig config =
     (cfg_mode config = Some ''proxy'' \<and>
      (case cfg_endpoint config of None \<Rightarrow> False | Some e \<Rightarrow> length (trim e) > 0))"

text \<open>\<open>isValidUrl\<close> is whether the platform's \<open>new URL(url)\<close> returns.\<close>

definition validateConfig :: "(string \<Rightarrow> bool) \<Rightarrow> WebhookConfig \<Rightarrow> bool" where
  "validateConfig isValidUrl config =
     (if cfg_mode config = Some ''proxy'' then validateProxyConfig config
      else (case cfg_url config of None \<Rightarrow> False | Some u \<Rightarrow> isValidUrl u))"

definition configured_retries :: "WebhookConfig \<Rightarrow> int" where
  "configured_retries config =
     (case cfg_retries config of None \<Rightarrow> 3 | Some r \<Rightarrow> if r = 0 then 3 else r)"

text \<open>
  \<open>WebhookIntegration.submit\<close>. A body that is not JSON is replaced by the empty object
  (\<open>response.json().catch(() => ({}))\<close>). On the body \<open>null\<close> the read \<open>result.id\<close>
  throws inside the \<open>try\<close>, and the \<open>catch\<close> returns the error's message.
\<close>

definition parsed_body :: "Response \<Rightarrow> json" where
  "parsed_body response =
     (case json_body response of Inl err \<Rightarrow> JObject False [] | Inr result \<Rightarrow> result)"

fun read_webhook_body :: "json \<Rightarrow> SubmissionResponse" where
  "read_webhook_body (JNull m) = failure m"
| "read_webhook_body (JObject b ps) =
     \<lparr> success = True,
       issueId = first_truthy [map_of ps ''id'', map_of ps ''issueId'', map_of ps ''ticket_id''],
       issueUrl = first_truthy [map_of ps ''url'', map_of ps ''link'', map_of ps ''issueUrl''],
       resp_message = Some (str_or (map_of ps ''message'')
                              ''Bug report submitted successfully via webhook''),
       resp_error = None \<rparr>"

definition webhook_result :: "Response \<Rightarrow> SubmissionResponse" where
  "webhook_result response = read_webhook_body (parsed_body response)"

definition submit ::
  "(string \<Rightarrow> bool) \<Rightarrow> (nat \<Rightarrow> Response settled) \<Rightarrow> WebhookConfig
     \<Rightarrow> SubmissionResponse \<times> nat \<times> nat list" where
  "submit isValidUrl fetch config =
     (if \<not> validateConfig isValidUrl config
      then (failure ''Invalid webhook configuration'', 0, [])
      else if isProxyMode config then submitViaProxy fetch
      else (case transformPayload_throws config of
              Some err \<Rightarrow>
                (failure (thrown_message err ''Failed to submit bug report via webhook''), 0, [])
            | None \<Rightarrow>
                (case makeRequest fetch (configured_retries config) of
                   (Inl err, n, ds) \<Rightarrow>
                     (failure (thrown_message err ''Failed to submit bug report via webhook''), n, ds)
                 | (Inr response, n, ds) \<Rightarrow> (webhook_result response, n, ds))))"

section \<open>Submission dispatcher\<close>

text \<open>
  The part of \<open>handleSubmit\<close> from "Submit to configured integrations" to "Use the first
  successful result". \<open>entries\<close> is \<open>Object.entries(config.integrations)\<close> (\<open>None\<close> when
  \<open>config.integrations\<close> is absent), an undefined configuration being \<open>None\<close>;
  \<open>registry\<close> is the \<open>integrations\<close> table; an adapter's \<open>submit\<close> is kept as how its
  promise settles. The result is the thrown \<open>Error\<close>'s message or the canonical result.
\<close>

type_synonym ('d, 'c) adapter = "'d \<Rightarrow> 'c \<Rightarrow> SubmissionResponse settled"

definition integrationPromises ::
  "(string \<Rightarrow> ('d, 'c) adapter option) \<Rightarrow> (string \<times> 'c option) list option \<Rightarrow> 'd
     \<Rightarrow> SubmissionResponse settled list" where
  "integrationPromises registry entries finalData =
     (case entries of
        None \<Rightarrow> []
      | Some es \<Rightarrow>
          concat (map (\<lambda>(name, integrationConfig).
                         case integrationConfig of
                           None \<Rightarrow> []
                         | Some cfg \<Rightarrow>
                             (case registry name of
                                None \<Rightarrow> []
                              | Some integration \<Rightarrow> [integration finalData cfg]))
                   es))"

text \<open>
  The \<open>integrations\<close> table: six names, each with its adapter object. The configuration
  type \<open>BugReporterConfig\<close> has a seventh key, \<open>jira\<close>, for which the table has no entry.
\<close>

record ('d, 'c) adapters =
  github_adapter :: "('d, 'c) adapter"
  linear_adapter :: "('d, 'c) adapter"
  webhook_adapter :: "('d, 'c) adapter"
  slack_adapter :: "('d, 'c) adapter"
  discord_adapter :: "('d, 'c) adapter"
  email_adapter :: "('d, 'c) adapter"

definition integrations :: "('d, 'c) adapters \<Rightarrow> string \<Rightarrow> ('d, 'c) adapter option" where
  "integrations A name =
     (if name = ''github'' then Some (github_adapter A)
      else if name = ''linear'' then Some (linear_adapter A)
      else if name = ''webhook'' then Some (webhook_adapter A)
      else if name = ''slack'' then Some (slack_adapter A)
      else if name = ''discord'' then Some (discord_adapter A)
      else if name = ''email'' then Some (email_adapter A)
      else None)"

text \<open>
  The filter with its type guard, \<open>result.status === 'fulfilled' && result.value.success\<close>,
  followed by \<open>.value\<close>.
\<close>

fun successful_value :: "SubmissionResponse settled \<Rightarrow> SubmissionResponse option" where
  "successful_value (Fulfilled v) = (if success v then Some v else None)"
| "successful_value (Rejected e) = None"

definition successfulResults :: "SubmissionResponse settled list \<Rightarrow> SubmissionResponse list" where
  "successfulResults results = List.map_filter successful_value results"

fun failure_message :: "SubmissionResponse settled \<Rightarrow> string" where
  "failure_message (Rejected (JSError m)) = str_or (Some m) ''Unknown error''"
| "failure_message (Rejected (JSThrown s)) = ''Unknown error''"
| "failure_message (Fulfilled v) = str_or (resp_error v) ''Submission failed''"

definition decide :: "SubmissionResponse settled list \<Rightarrow> string + SubmissionResponse" where
  "decide results =
     (if length results = 0 then Inl ''No integrations configured''
      else
        case successfulResults results of
          [] \<Rightarrow> Inl (''All integrations failed: '' @ join '', '' (map failure_message results))
        | successResult # rest \<Rightarrow> Inr successResult)"

definition dispatch ::
  "(string \<Rightarrow> ('d, 'c) adapter option) \<Rightarrow> (string \<times> 'c option) list option \<Rightarrow> 'd
     \<Rightarrow> string + SubmissionResponse" where
  "dispatch registry entries finalData = decide (integrationPromises registry entries finalData)"

section \<open>A platform for the examples\<close>

text \<open>
  The serialiser of \<open>URLSearchParams\<close> (\<open>application/x-www-form-urlencoded\<close>): ASCII
  letters, digits and \<open>* - . _\<close> stay, a space becomes \<open>+\<close>, every other byte is
  percent-encoded with upper-case hexadecimal digits.
\<close>

definition hex_digit :: "nat \<Rightarrow> char" where
  "hex_digit n = (if n < 10 then char_of (48 + n) else char_of (55 + n))"

definition is_alnum :: "char \<Rightarrow> bool" where
  "is_alnum c =
     (let n = (of_char c :: nat)
      in (48 \<le> n \<and> n \<le> 57) \<or> (65 \<le> n \<and> n \<le> 90) \<or> (97 \<le> n \<and> n \<le> 122))"

definition urlencode_char :: "char \<Rightarrow> string" where
  "urlencode_char c =
     (if is_alnum c \<or> c \<in> set ''*-._'' then [c]
      else if c = CHR '' '' then ''+''
      else [CHR ''%'', hex_digit ((of_char c :: nat) div 16), hex_digit ((of_char c :: nat) mod 16)])"

definition urlencode :: "string \<Rightarrow> string" where
  "urlencode s = concat (map urlencode_char s)"

definition urlencoded_serialize :: "(string \<times> string) list \<Rightarrow> string" where
  "urlencoded_serialize ps = join ''&'' (map (\<lambda>(k, v). urlencode k @ ''='' @ urlencode v) ps)"

definition example_href :: "URL \<Rightarrow> string" where
  "example_href u =
     href_base u
       @ (if searchParams u = [] then [] else ''?'' @ urlencoded_serialize (searchParams u))
       @ hash u"

text \<open>
  The URL of the specification's example as the browser parses it, and a platform that
  knows this one URL: its constructor throws on every other string, as the browser's does
  on \<open>https://\<close>, which has no host.
\<close>

definition example_url :: URL where
  "example_url =
     \<lparr> href_base = ''https://x/y'',
       searchParams = [(''token'', ''abc''), (''data'', ''safe'')],
       hash = [] \<rparr>"

definition example_platform :: platform where
  "example_platform =
     \<lparr> newURL = (\<lambda>s. if s = ''https://x/y?token=abc&data=safe'' then Some example_url else None),
       URL_toString = example_href \<rparr>"

section \<open>The header policy as the specification words it\<close>

text \<open>
  A header is sensitive when it is named \<open>Authorization\<close> or \<open>Cookie\<close>, or when its name
  contains, case-insensitively, an entry of the configured list.
\<close>

definition spec_isSensitiveHeader :: "string list \<Rightarrow> string \<Rightarrow> bool" where
  "spec_isSensitiveHeader deny name =
     (toLowerCase name = ''authorization'' \<or> toLowerCase name = ''cookie''
      \<or> spec_isSensitiveKey deny name)"

text \<open>The header names that an entry records.\<close>

definition header_names :: "NetworkRequestEntry \<Rightarrow> string set" where
  "header_names e =
     (case requestHeaders e of None \<Rightarrow> {} | Some hs \<Rightarrow> fst ` set hs)
     \<union> (case responseHeaders e of None \<Rightarrow> {} | Some hs \<Rightarrow> fst ` set hs)"

section \<open>Retry schedule and example destinations\<close>

text \<open>
  The delays, in milliseconds, waited after the failed attempts \<open>i, \<dots>, j - 1\<close>:
  \<open>Math.pow(2, k) * 1000\<close> after attempt \<open>k\<close>.
\<close>

definition backoff :: "nat \<Rightarrow> nat \<Rightarrow> nat list" where
  "backoff i j = map (\<lambda>k. 2 ^ k * 1000) [i..<j]"

text \<open>
  A webhook in direct mode with 3 retries, a \<open>200\<close> response with a JSON body, a \<open>404\<close>
  response, a \<open>200\<close> response whose body is not JSON, and a \<open>200\<close> response whose
  body is the JSON value \<open>null\<close>.
\<close>

definition example_config :: WebhookConfig where
  "example_config =
     \<lparr> cfg_mode = None, cfg_endpoint = None, cfg_url = Some ''https://hooks.example/bugs'',
       cfg_method = None, cfg_retries = Some 3, transformPayload_throws = None \<rparr>"

definition ok_response :: Response where
  "ok_response =
     \<lparr> resp_status = 200, statusText = ''OK'', resp_headers = [],
       json_body = Inr (JObject False [(''id'', ''42'')]) \<rparr>"



definition null_response :: Response where
  "null_response =
     \<lparr> resp_status = 200, statusText = ''OK'', resp_headers = [],
       json_body = Inr (JNull ''Cannot read properties of null'') \<rparr>"

text \<open>
  How the calls of the example destinations settle: every configuration URL is taken as
  valid; the first two calls are rejected and the third answers \<open>200\<close>, with a JSON
  object or with the body \<open>null\<close>; the first call answers \<open>404\<close> and the second
  \<open>200\<close>; every call answers \<open>404\<close>; every call answers \<open>200\<close> with a body that is not
  JSON.
\<close>

definition any_url_valid :: "string \<Rightarrow> bool" where
  "any_url_valid u = True"

definition two_failures_then_ok :: "nat \<Rightarrow> Response settled" where
  "two_failures_then_ok k =
     (if k < 2 then Rejected (JSError ''Failed to fetch'') else Fulfilled ok_response)"

definition two_failures_then_null :: "nat \<Rightarrow> Response settled" where
  "two_failures_then_null k =
     (if k < 2 then Rejected (JSError ''Failed to fetch'') else Fulfilled null_response)"




section \<open>Example log entries\<close>

definition example_log :: "string \<Rightarrow> ConsoleLogEntry" where
  "example_log m =
     \<lparr> log_timestamp = 0, level = Log, message = m, args = [m], source = None \<rparr>"

section \<open>Example destinations for the dispatcher\<close>

text \<open>
  Adapters for the six names of the table: \<open>github\<close> rejects, \<open>slack\<close> returns a
  failure result, \<open>webhook\<close> returns the given result, and the other three reject.
\<close>

definition rejecting_adapter :: "(unit, unit) adapter" where
  "rejecting_adapter d c = Rejected (JSError ''network down'')"

definition refusing_adapter :: "(unit, unit) adapter" where
  "refusing_adapter d c = Fulfilled (failure ''channel not found'')"

definition returning_adapter :: "SubmissionResponse \<Rightarrow> (unit, unit) adapter" where
  "returning_adapter r d c = Fulfilled r"

definition example_adapters :: "SubmissionResponse \<Rightarrow> (unit, unit) adapters" where
  "example_adapters r =
     \<lparr> github_adapter = rejecting_adapter, linear_adapter = rejecting_adapter,
       webhook_adapter = returning_adapter r, slack_adapter = refusing_adapter,
       discord_adapter = rejecting_adapter, email_adapter = rejecting_adapter \<rparr>"

definition example_registry ::
  "SubmissionResponse \<Rightarrow> string \<Rightarrow> (unit, unit) adapter option" where
  "example_registry r = integrations (example_adapters r)"


definition example_integrations :: "(string \<times> unit option) list option" where
  "example_integrations =
     Some [(''github'', Some ()), (''slack'', Some ()), (''webhook'', Some ())]"

definition example_success :: SubmissionResponse where
  "example_success =
     \<lparr> success = True, issueId = Some ''42'', issueUrl = Some ''https://hooks.example/bugs/42'',
       resp_message = Some ''Bug report submitted successfully via webhook'',
       resp_error = None \<rparr>"

section \<open>Example document\<close>

text \<open>
  A document in which every element is displayed as \<open>block\<close> and the exclusion
  selectors match exactly element 0, and a raster capture that fails.
\<close>

definition block_document :: document where
  "block_document el = ''block''"

definition match_element_0 :: "string \<Rightarrow> thrown + element list" where
  "match_element_0 selector = Inr [0]"

definition failed_raster :: "canvas settled" where
  "failed_raster = Rejected (JSError ''Capture failed'')"

section \<open>Ring buffers: what a sequence of pushes leaves\<close>

lemma push_bounded_pos:
  assumes "0 < cap"
  shows "push_bounded cap xs x = last_n (nat cap) (xs @ [x])"
proof (cases "int (length (xs @ [x])) > cap")
  case True
  have "nat (max (int (length (xs @ [x])) + - cap) 0) = length (xs @ [x]) - nat cap"
    using assms True by (simp add: max_def)
  moreover have "- cap < 0" using assms by simp
  ultimately show ?thesis
    using True by (simp add: push_bounded_def slice_from_def last_n_def Let_def)
next
  case False
  then have "length (xs @ [x]) - nat cap = 0" by simp
  then show ?thesis
    using False unfolding push_bounded_def last_n_def Let_def by simp
qed

lemma push_bounded_zero: "push_bounded 0 xs x = xs @ [x]"
  by (simp add: push_bounded_def slice_from_def Let_def)

lemma last_n_snoc: "0 < k \<Longrightarrow> last_n k (last_n k xs @ [x]) = last_n k (xs @ [x])"
proof (cases "length xs \<le> k")
  case True
  then show ?thesis by (simp add: last_n_def)
next
  case False
  assume "0 < k"
  with False have "Suc (length xs) - k = Suc (length xs - k)" by simp
  moreover from False have "Suc (length xs - (length xs - k)) - k = Suc 0" by simp
  ultimately show ?thesis
    using False by (simp add: last_n_def)
qed

lemma last_n_length: "length (last_n k xs) = min k (length xs)"
  by (auto simp: last_n_def)

lemma last_n_append: "k \<le> length ys \<Longrightarrow> last_n k (xs @ ys) = last_n k ys"
  by (auto simp: last_n_def)

lemma push_all_pos:
  assumes "0 < cap"
  shows "foldl (push_bounded cap) xs es
           = (if es = [] then xs else last_n (nat cap) (xs @ es))"
proof (induction es rule: rev_induct)
  case Nil
  show ?case by simp
next
  case (snoc e es)
  have k: "0 < nat cap" using assms by simp
  show ?case
  proof (cases "es = []")
    case True
    then show ?thesis using assms by (simp add: push_bounded_pos)
  next
    case False
    then show ?thesis
      using snoc assms k by (simp add: push_bounded_pos last_n_snoc)
  qed
qed

lemma push_all_zero: "foldl (push_bounded 0) xs es = xs @ es"
  by (induction es rule: rev_induct) (simp_all add: push_bounded_zero)

lemma addConsoleLogs_fold:
  "options (addConsoleLogs es c) = options c \<and>
   consoleLogs (addConsoleLogs es c)
     = foldl (push_bounded (maxConsoleLogs (options c))) (consoleLogs c) es"
  by (induction es rule: rev_induct) (simp_all add: addConsoleLogs_def addConsoleLog_def)

lemma addNetworkRequests_fold:
  "options (addNetworkRequests rs c) = options c \<and>
   networkRequests (addNetworkRequests rs c)
     = foldl (push_bounded (maxNetworkRequests (options c))) (networkRequests c) rs"
  by (induction rs rule: rev_induct) (simp_all add: addNetworkRequests_def addNetworkRequest_def)

text \<open>
  With a capacity of at least 1 the buffers behave as ring buffers: after more pushes
  than the capacity, whatever the buffer held before, it holds exactly the last
  \<open>K\<close> pushed entries in insertion order.
\<close>

lemma console_ring_buffer_keeps_last:
  assumes "0 < maxConsoleLogs (options c)"
    and "maxConsoleLogs (options c) < int (length es)"
  shows "consoleLogs (addConsoleLogs es c) = last_n (nat (maxConsoleLogs (options c))) es
       \<and> int (length (consoleLogs (addConsoleLogs es c))) = maxConsoleLogs (options c)"
proof -
  have ne: "es \<noteq> []" using assms by auto
  have le: "nat (maxConsoleLogs (options c)) \<le> length es" using assms by linarith
  have "consoleLogs (addConsoleLogs es c)
          = last_n (nat (maxConsoleLogs (options c))) (consoleLogs c @ es)"
    using ne assms(1) by (simp add: addConsoleLogs_fold push_all_pos)
  also have "\<dots> = last_n (nat (maxConsoleLogs (options c))) es"
    using le by (rule last_n_append)
  finally show ?thesis
    using le assms(1) by (simp add: last_n_length)
qed

lemma network_ring_buffer_keeps_last:
  assumes "0 < maxNetworkRequests (options c)"
    and "maxNetworkRequests (options c) < int (length rs)"
  shows "networkRequests (addNetworkRequests rs c) = last_n (nat (maxNetworkRequests (options c))) rs
       \<and> int (length (networkRequests (addNetworkRequests rs c))) = maxNetworkRequests (options c)"
proof -
  have ne: "rs \<noteq> []" using assms by auto
  have le: "nat (maxNetworkRequests (options c)) \<le> length rs" using assms by linarith
  have "networkRequests (addNetworkRequests rs c)
          = last_n (nat (maxNetworkRequests (options c))) (networkRequests c @ rs)"
    using ne assms(1) by (simp add: addNetworkRequests_fold push_all_pos)
  also have "\<dots> = last_n (nat (maxNetworkRequests (options c))) rs"
    using le by (rule last_n_append)
  finally show ?thesis
    using le assms(1) by (simp add: last_n_length)
qed

lemma push_bounded_within_capacity:
  "0 < cap \<Longrightarrow> int (length (push_bounded cap xs x)) \<le> cap"
  by (simp add: push_bounded_pos last_n_length)

text \<open>
  C2. The claim: after \<open>N\<close> pushes into a buffer of capacity \<open>K < N\<close> the buffer holds
  exactly the last \<open>K\<close> pushed entries, and a buffer never exceeds its capacity. At
  capacity 0, a value the configuration validator accepts, the trimming step is
  \<open>slice(-0)\<close>, which copies the whole array: a new capture object with capacity 0 keeps
  every pushed entry, so after \<open>N\<close> pushes the buffer has length \<open>N\<close>, not 0.
\<close>

theorem C2_capacity_zero_keeps_every_entry:
  "consoleLogs (addConsoleLogs es (new_capture (opts\<lparr> maxConsoleLogs := 0 \<rparr>))) = es
   \<and> networkRequests (addNetworkRequests rs (new_capture (opts\<lparr> maxNetworkRequests := 0 \<rparr>))) = rs"
  by (simp add: addConsoleLogs_fold addNetworkRequests_fold push_all_zero new_capture_def)

section \<open>Screenshot: hiding and restoring\<close>

lemma hide_elements_fold:
  "distinct els \<Longrightarrow>
   foldl (\<lambda>(d', originalStyles) el. (d'(el := ''none''), originalStyles(el \<mapsto> d' el))) (d, m) els
     = ((\<lambda>el. if el \<in> set els then ''none'' else d el),
        (\<lambda>el. if el \<in> set els then Some (d el) else m el))"
proof (induction els arbitrary: d m)
  case Nil
  show ?case by simp
next
  case (Cons a els)
  then have "a \<notin> set els" and "distinct els" by simp_all
  then show ?case
    using Cons.IH [of "d(a := ''none'')" "m(a \<mapsto> d a)"]
    by (auto simp: fun_eq_iff)
qed

lemma hide_elements_distinct:
  "distinct els \<Longrightarrow>
   hide_elements els d
     = ((\<lambda>el. if el \<in> set els then ''none'' else d el),
        (\<lambda>el. if el \<in> set els then Some (d el) else None))"
  unfolding hide_elements_def by (simp add: hide_elements_fold)

lemma hide_elements_hidden:
  "fst (foldl (\<lambda>(d', originalStyles) el. (d'(el := ''none''), originalStyles(el \<mapsto> d' el))) (d, m) els) el
     = (if el \<in> set els then ''none'' else d el)"
proof (induction els arbitrary: d m)
  case Nil
  show ?case by simp
next
  case (Cons a els)
  show ?case
    using Cons.IH [of "d(a := ''none'')" "m(a \<mapsto> d a)"] by auto
qed

lemma restore_elements_apply:
  "restore_elements els m d el = (if el \<in> set els then str_or (m el) [] else d el)"
  unfolding restore_elements_def
proof (induction els arbitrary: d)
  case Nil
  show ?case by simp
next
  case (Cons a els)
  show ?case using Cons.IH [of "d(a := str_or (m a) [])"] by auto
qed

lemma str_or_Some_empty: "str_or (Some s) [] = s"
  by simp

lemma restore_after_hide:
  assumes "distinct els"
  shows "restore_elements els (snd (hide_elements els d)) (fst (hide_elements els d)) = d"
  using assms by (auto simp: hide_elements_distinct restore_elements_apply fun_eq_iff)

lemma captureScreenshot_success_restores:
  assumes "distinct els" and "querySelectorAll (join '', '' (all_excludeSelectors opts)) = Inr els"
  shows "fst (captureScreenshot True querySelectorAll (Fulfilled cv) opts d) = d"
proof -
  obtain d1 m where h: "hide_elements els d = (d1, m)" by (cases "hide_elements els d")
  have "restore_elements els m d1 = d"
    using restore_after_hide [OF assms(1), of d] h by simp
  then show ?thesis
    using assms(2) h
    by (simp add: captureScreenshot_def capture_hidden_def encode_canvas_def Let_def
        split: sum.splits)
qed

lemma captureScreenshot_failure_hidden:
  assumes "querySelectorAll (join '', '' (all_excludeSelectors opts)) = Inr els"
  shows "fst (captureScreenshot True querySelectorAll (Rejected e) opts d) el
           = (if el \<in> set els then ''none'' else d el)"
proof -
  obtain d1 m where h: "hide_elements els d = (d1, m)" by (cases "hide_elements els d")
  have "d1 el = (if el \<in> set els then ''none'' else d el)"
    using hide_elements_hidden [of d Map.empty els el] h by (simp add: hide_elements_def)
  then show ?thesis
    using assms h by (simp add: captureScreenshot_def capture_hidden_def)
qed

text \<open>
  C3. The claim: whether the raster capture succeeds or throws, every hidden element has
  its original display value back when the operation returns. The restoring loop is
  inside the \<open>try\<close> block, after the \<open>await\<close>, and there is no \<open>finally\<close>: when the raster
  capture rejects, the operation returns with the element still at \<open>display: none\<close>. Here
  the document has one matching element, displayed as \<open>block\<close>.
\<close>

theorem C3_failed_capture_leaves_element_hidden:
  "block_document 0 = ''block''
   \<and> captureScreenshot True match_element_0 failed_raster None block_document
       = (block_document(0 := ''none''), None, Some (JSError ''Capture failed''))"
  by (simp add: captureScreenshot_def capture_hidden_def hide_elements_def
      match_element_0_def failed_raster_def block_document_def)

section \<open>Redaction of URLs\<close>

lemma sp_set_set:
  "set (sp_set ps n v) = insert (n, v) {p \<in> set ps. fst p \<noteq> n}"
  by (induction ps n v rule: sp_set.induct) auto

lemma sp_set_filter:
  "\<not> Q n \<Longrightarrow> filter (\<lambda>p. Q (fst p)) (sp_set ps n v) = filter (\<lambda>p. Q (fst p)) ps"
proof (induction ps n v rule: sp_set.induct)
  case (1 n v)
  then show ?case by simp
next
  case (2 k w ps n v)
  have "filter (\<lambda>p. Q (fst p)) (filter (\<lambda>p. fst p \<noteq> n) ps) = filter (\<lambda>p. Q (fst p)) ps"
    using 2(2) by (induction ps) auto
  then show ?case using 2 by auto
qed

lemma sp_has_iff: "sp_has ps n \<longleftrightarrow> n \<in> fst ` set ps"
  by (auto simp: sp_has_def list_ex_iff)

lemma redact_param_fixed:
  "href_base (redact_param u q) = href_base u \<and> hash (redact_param u q) = hash u"
  by (simp add: redact_param_def)

lemma redact_param_filter:
  "\<not> Q q \<Longrightarrow> filter (\<lambda>p. Q (fst p)) (searchParams (redact_param u q))
                 = filter (\<lambda>p. Q (fst p)) (searchParams u)"
  by (simp add: redact_param_def sp_set_filter)

lemma redact_param_keys:
  "fst ` set (searchParams (redact_param u q)) = fst ` set (searchParams u)"
  by (auto simp: redact_param_def sp_set_set sp_has_iff)

lemma redact_param_mem:
  assumes "(k, w) \<in> set (searchParams (redact_param u q))"
  shows "(k = q \<and> w = REDACTED) \<or> ((k, w) \<in> set (searchParams u) \<and> k \<noteq> q)"
proof (cases "sp_has (searchParams u) q")
  case True
  then show ?thesis using assms by (auto simp: redact_param_def sp_set_set)
next
  case False
  then have "k \<noteq> q" using assms by (force simp: redact_param_def sp_has_iff)
  then show ?thesis using assms False by (simp add: redact_param_def)
qed

lemma redact_all_fixed:
  "href_base (foldl redact_param u S) = href_base u \<and> hash (foldl redact_param u S) = hash u"
  by (induction S rule: rev_induct) (simp_all add: redact_param_fixed)

lemma redact_all_keys:
  "fst ` set (searchParams (foldl redact_param u S)) = fst ` set (searchParams u)"
  by (induction S rule: rev_induct) (simp_all add: redact_param_keys)

lemma redact_all_filter:
  "filter (\<lambda>p. fst p \<notin> set S) (searchParams (foldl redact_param u S))
     = filter (\<lambda>p. fst p \<notin> set S) (searchParams u)"
proof -
  have "set T \<subseteq> set S \<Longrightarrow>
        filter (\<lambda>p. fst p \<notin> set S) (searchParams (foldl redact_param u T))
          = filter (\<lambda>p. fst p \<notin> set S) (searchParams u)" for T
  proof (induction T rule: rev_induct)
    case Nil
    show ?case by simp
  next
    case (snoc q T)
    then have "\<not> (q \<notin> set S)" by simp
    then have "filter (\<lambda>p. fst p \<notin> set S) (searchParams (redact_param (foldl redact_param u T) q))
                 = filter (\<lambda>p. fst p \<notin> set S) (searchParams (foldl redact_param u T))"
      by (rule redact_param_filter)
    then show ?case using snoc by simp
  qed
  then show ?thesis by simp
qed

lemma redact_all_redacted:
  "(k, w) \<in> set (searchParams (foldl redact_param u S)) \<Longrightarrow> k \<in> set S \<Longrightarrow> w = REDACTED"
proof (induction S arbitrary: k w rule: rev_induct)
  case Nil
  then show ?case by simp
next
  case (snoc q S)
  from snoc.prems(1)
  have "(k, w) \<in> set (searchParams (redact_param (foldl redact_param u S) q))" by simp
  then consider "k = q \<and> w = REDACTED"
    | "(k, w) \<in> set (searchParams (foldl redact_param u S)) \<and> k \<noteq> q"
    using redact_param_mem by blast
  then show ?case
  proof cases
    case 1
    then show ?thesis by simp
  next
    case 2
    then have "k \<in> set S" using snoc.prems(2) by simp
    then show ?thesis using 2 snoc.IH by blast
  qed
qed

lemma sp_set_once: "length (filter (\<lambda>p. fst p = n) (sp_set ps n v)) = 1"
proof (induction ps n v rule: sp_set.induct)
  case (1 n v)
  show ?case by simp
next
  case (2 k w ps n v)
  have "filter (\<lambda>p. fst p = n) (filter (\<lambda>p. fst p \<noteq> n) ps) = []"
    by (induction ps) auto
  then show ?case using 2 by auto
qed

lemma redact_param_once:
  "length (filter (\<lambda>p. fst p = q) (searchParams (redact_param u q))) \<le> 1"
proof (cases "sp_has (searchParams u) q")
  case True
  then show ?thesis by (simp add: redact_param_def sp_set_once)
next
  case False
  then have "filter (\<lambda>p. fst p = q) (searchParams u) = []"
    by (auto simp: sp_has_iff filter_empty_conv)
  then show ?thesis using False by (simp add: redact_param_def)
qed

lemma redact_all_once:
  "k \<in> set S \<Longrightarrow> length (filter (\<lambda>p. fst p = k) (searchParams (foldl redact_param u S))) \<le> 1"
proof (induction S rule: rev_induct)
  case Nil
  then show ?case by simp
next
  case (snoc q S)
  show ?case
  proof (cases "k = q")
    case True
    then show ?thesis
      using redact_param_once [of q "foldl redact_param u S"] by simp
  next
    case False
    then have "filter (\<lambda>p. fst p = k) (searchParams (redact_param (foldl redact_param u S) q))
                 = filter (\<lambda>p. fst p = k) (searchParams (foldl redact_param u S))"
      using redact_param_filter [of "\<lambda>x. x = k" q] by simp
    then show ?thesis using snoc False by simp
  qed
qed

text \<open>
  C5, as the code has it. For every URL that parses, \<open>sanitizeUrl\<close> serialises the URL
  object in which every query parameter whose key is exactly (case-sensitively) an entry
  of the configured list carries the redaction marker and occurs once; the keys that
  occur are the same as before, all parameters with other keys are untouched and in
  their order, and the rest of the URL is unchanged.
\<close>

theorem C5_sanitizeUrl_redacts_exactly_named_keys:
  assumes "newURL P u = Some urlObj"
  shows "sanitizeUrl P c u = URL_toString P (sanitizeUrl_obj c urlObj)
       \<and> href_base (sanitizeUrl_obj c urlObj) = href_base urlObj
       \<and> hash (sanitizeUrl_obj c urlObj) = hash urlObj
       \<and> (\<forall>(k, w) \<in> set (searchParams (sanitizeUrl_obj c urlObj)).
             k \<in> set (sensitiveParams (options c)) \<longrightarrow> w = REDACTED)
       \<and> (\<forall>k \<in> set (sensitiveParams (options c)).
             length (filter (\<lambda>p. fst p = k) (searchParams (sanitizeUrl_obj c urlObj))) \<le> 1)
       \<and> fst ` set (searchParams (sanitizeUrl_obj c urlObj)) = fst ` set (searchParams urlObj)
       \<and> filter (\<lambda>p. fst p \<notin> set (sensitiveParams (options c)))
            (searchParams (sanitizeUrl_obj c urlObj))
           = filter (\<lambda>p. fst p \<notin> set (sensitiveParams (options c))) (searchParams urlObj)"
proof -
  have "\<forall>(k, w) \<in> set (searchParams (sanitizeUrl_obj c urlObj)).
          k \<in> set (sensitiveParams (options c)) \<longrightarrow> w = REDACTED"
    unfolding sanitizeUrl_obj_def using redact_all_redacted by blast
  moreover have "\<forall>k \<in> set (sensitiveParams (options c)).
          length (filter (\<lambda>p. fst p = k) (searchParams (sanitizeUrl_obj c urlObj))) \<le> 1"
    unfolding sanitizeUrl_obj_def using redact_all_once by blast
  ultimately show ?thesis
    using assms
    by (simp add: sanitizeUrl_def sanitizeUrl_obj_def redact_all_fixed redact_all_keys
        redact_all_filter)
qed

text \<open>The specification's example, with the default policy.\<close>

lemma example_sanitized:
  "sanitizeUrl_obj (new_capture default_options) example_url
     = \<lparr> href_base = ''https://x/y'',
         searchParams = [(''token'', ''[REDACTED]''), (''data'', ''safe'')],
         hash = [] \<rparr>"
  by (simp add: sanitizeUrl_obj_def new_capture_def default_options_def example_url_def
      redact_param_def sp_has_def REDACTED_def)

lemma example_href_sanitized:
  "example_href \<lparr> href_base = ''https://x/y'',
         searchParams = [(''token'', ''[REDACTED]''), (''data'', ''safe'')],
         hash = [] \<rparr> = ''https://x/y?token=%5BREDACTED%5D&data=safe''"
  by (simp add: example_href_def urlencoded_serialize_def urlencode_def urlencode_char_def
      is_alnum_def hex_digit_def Let_def char_of_def bit_Suc_0_iff)

text \<open>C5 at the example URL, on the example platform.\<close>

theorem C5_witness:
  "newURL example_platform ''https://x/y?token=abc&data=safe'' = Some example_url
   \<and> sanitizeUrl example_platform (new_capture default_options) ''https://x/y?token=abc&data=safe''
       = ''https://x/y?token=%5BREDACTED%5D&data=safe''"
proof -
  have h: "newURL example_platform ''https://x/y?token=abc&data=safe'' = Some example_url"
    by (simp add: example_platform_def)
  show ?thesis
    using h C5_sanitizeUrl_redacts_exactly_named_keys [OF h, of "new_capture default_options"]
    by (simp add: example_sanitized example_href_sanitized example_platform_def)
qed

text \<open>
  C5 as the claim states it fails: the key \<open>access_token\<close> contains the list entry
  \<open>token\<close>, so it matches case-insensitively as a substring, and its value is left as it
  was, because \<open>searchParams.has\<close> compares whole names.
\<close>

theorem C5_counterexample:
  "spec_isSensitiveKey (sensitiveParams (options (new_capture default_options))) ''access_token''
   \<and> searchParams (sanitizeUrl_obj (new_capture default_options)
        \<lparr> href_base = ''https://x/y'', searchParams = [(''access_token'', ''abc'')], hash = [] \<rparr>)
       = [(''access_token'', ''abc'')]"
  by (simp add: spec_isSensitiveKey_def sanitizeUrl_obj_def new_capture_def default_options_def
      redact_param_def sp_has_def toLowerCase_def lower_char_def)

text \<open>
  C6. With the default policy, once the platform has parsed
  \<open>https://x/y?token=abc&data=safe\<close>, \<open>sanitizeUrl\<close> returns the serialisation of the URL
  in which the value of \<open>token\<close> is the redaction marker and \<open>data=safe\<close> is untouched;
  and for every string on which the URL constructor throws, \<open>sanitizeUrl\<close> returns the
  string unchanged.
\<close>

theorem C6_sanitizeUrl_example_and_fail_open:
  "(newURL P ''https://x/y?token=abc&data=safe'' = Some example_url \<longrightarrow>
      sanitizeUrl P (new_capture default_options) ''https://x/y?token=abc&data=safe''
        = URL_toString P \<lparr> href_base = ''https://x/y'',
                             searchParams = [(''token'', ''[REDACTED]''), (''data'', ''safe'')],
                             hash = [] \<rparr>)
   \<and> (newURL P u = None \<longrightarrow> sanitizeUrl P c u = u)"
  by (simp add: sanitizeUrl_def example_sanitized)

text \<open>
  C6 on the example platform: the serialised result, in which the serialiser has
  percent-encoded the brackets of the marker, and a string that does not parse.
\<close>

theorem C6_witness:
  "sanitizeUrl example_platform (new_capture default_options) ''https://x/y?token=abc&data=safe''
     = ''https://x/y?token=%5BREDACTED%5D&data=safe''
   \<and> sanitizeUrl example_platform (new_capture default_options) ''https://'' = ''https://''"
  using C6_sanitizeUrl_example_and_fail_open
          [of example_platform "''https://''" "new_capture default_options"]
  by (simp add: example_platform_def example_href_sanitized)

section \<open>Header filtering\<close>

lemma obj_set_keys: "fst ` set (obj_set r k v) = insert k (fst ` set r)"
  by (induction r k v rule: obj_set.induct) auto

lemma isSensitiveHeader_empty:
  "sensitiveParams (options c) = [] \<Longrightarrow> \<not> isSensitiveHeader c name"
  by (simp add: isSensitiveHeader_def)

lemma isSensitiveHeader_nonempty:
  assumes "sensitiveParams (options c) \<noteq> []"
  shows "isSensitiveHeader c name \<longleftrightarrow>
           spec_isSensitiveKey (sensitiveParams (options c)) name
           \<or> toLowerCase name = ''authorization'' \<or> toLowerCase name = ''cookie''"
proof -
  obtain p where "p \<in> set (sensitiveParams (options c))"
    using assms by (cases "sensitiveParams (options c)") auto
  then show ?thesis
    unfolding isSensitiveHeader_def spec_isSensitiveKey_def Let_def list_ex_iff by blast
qed

lemma headers_fold_keys:
  "k \<in> fst ` set (foldl (\<lambda>result (key, v). if \<not> isSensitiveHeader c key then obj_set result key v else result) r hs)
   \<Longrightarrow> k \<in> fst ` set r \<or> \<not> isSensitiveHeader c k"
proof (induction hs arbitrary: r)
  case Nil
  then show ?case by simp
next
  case (Cons h hs)
  obtain key v where h: "h = (key, v)" by (cases h)
  show ?case
  proof (cases "isSensitiveHeader c key")
    case True
    then show ?thesis using Cons h by simp
  next
    case False
    with Cons.prems h
    have "k \<in> fst ` set (obj_set r key v) \<or> \<not> isSensitiveHeader c k"
      using Cons.IH [of "obj_set r key v"] by simp
    then show ?thesis using False by (auto simp: obj_set_keys)
  qed
qed

lemma headersToObject_keys:
  "k \<in> fst ` set (headersToObject c hs) \<Longrightarrow> \<not> isSensitiveHeader c k"
  using headers_fold_keys [of k c "[]" hs] by (simp add: headersToObject_def)

lemma object_fold_keys:
  "k \<in> fst ` set (foldl (\<lambda>result (key, v).
                 case v of
                   JString s \<Rightarrow> if \<not> isSensitiveHeader c key then obj_set result key s else result
                 | JOther \<Rightarrow> result) r es)
   \<Longrightarrow> k \<in> fst ` set r \<or> \<not> isSensitiveHeader c k"
proof (induction es arbitrary: r)
  case Nil
  then show ?case by simp
next
  case (Cons h es)
  obtain key v where h: "h = (key, v)" by (cases h)
  show ?case
  proof (cases "\<exists>s. v = JString s \<and> \<not> isSensitiveHeader c key")
    case True
    then obtain s where s: "v = JString s" "\<not> isSensitiveHeader c key" by blast
    with Cons.prems h
    have "k \<in> fst ` set (obj_set r key s) \<or> \<not> isSensitiveHeader c k"
      using Cons.IH [of "obj_set r key s"] by simp
    then show ?thesis using s by (auto simp: obj_set_keys)
  next
    case False
    then have "(case v of
                   JString s \<Rightarrow> if \<not> isSensitiveHeader c key then obj_set r key s else r
                 | JOther \<Rightarrow> r) = r"
      by (cases v) auto
    then show ?thesis using Cons h by simp
  qed
qed

lemma extractHeaders_keys:
  "extractHeaders c arg = Some hs \<Longrightarrow> k \<in> fst ` set hs \<Longrightarrow> \<not> isSensitiveHeader c k"
proof (cases arg)
  case NoHeaders
  assume "extractHeaders c arg = Some hs"
  then show ?thesis using NoHeaders by simp
next
  case (HeadersInstance xs)
  assume "extractHeaders c arg = Some hs" "k \<in> fst ` set hs"
  then show ?thesis
    using HeadersInstance headersToObject_keys [of k c xs]
    by (simp add: nonempty_or_undefined_def split: if_splits)
next
  case (HeadersObject es)
  assume "extractHeaders c arg = Some hs" "k \<in> fst ` set hs"
  then show ?thesis
    using HeadersObject object_fold_keys [of k c "[]" es]
    by (simp add: nonempty_or_undefined_def split: if_splits)
next
  case HeadersOther
  assume "extractHeaders c arg = Some hs"
  then show ?thesis using HeadersOther by simp
qed

lemma xhr_fold_keys:
  "k \<in> fst ` set (foldl (\<lambda>result line.
                           case split line '': '' of
                             [] \<Rightarrow> result
                           | key # valueParts \<Rightarrow>
                               if key \<noteq> [] \<and> length valueParts > 0 \<and> \<not> isSensitiveHeader c key
                               then obj_set result key (join '': '' valueParts)
                               else result) r ls)
   \<Longrightarrow> k \<in> fst ` set r \<or> \<not> isSensitiveHeader c k"
proof (induction ls arbitrary: r)
  case Nil
  then show ?case by simp
next
  case (Cons l ls)
  let ?step = "\<lambda>result line.
                           case split line '': '' of
                             [] \<Rightarrow> result
                           | key # valueParts \<Rightarrow>
                               if key \<noteq> [] \<and> length valueParts > 0 \<and> \<not> isSensitiveHeader c key
                               then obj_set result key (join '': '' valueParts)
                               else result"
  have step: "k' \<in> fst ` set (?step r l) \<Longrightarrow> k' \<in> fst ` set r \<or> \<not> isSensitiveHeader c k'" for k'
    by (cases "split l '': ''") (auto simp: obj_set_keys split: if_splits)
  from Cons.prems have "k \<in> fst ` set (?step r l) \<or> \<not> isSensitiveHeader c k"
    using Cons.IH [of "?step r l"] by simp
  then show ?case using step by blast
qed

lemma getXHRResponseHeaders_keys:
  "getXHRResponseHeaders c raw = Some hs \<Longrightarrow> k \<in> fst ` set hs \<Longrightarrow> \<not> isSensitiveHeader c k"
  using xhr_fold_keys [of k c "[]"]
  by (auto simp: getXHRResponseHeaders_def nonempty_or_undefined_def
      split: option.splits if_splits)


lemma isSensitiveHeader_spec:
  "sensitiveParams (options c) \<noteq> [] \<Longrightarrow>
   isSensitiveHeader c name = spec_isSensitiveHeader (sensitiveParams (options c)) name"
  using isSensitiveHeader_nonempty [of c name] by (auto simp: spec_isSensitiveHeader_def)

lemma set_push_bounded: "set (push_bounded cap xs x) \<subseteq> insert x (set xs)"
  by (auto simp: push_bounded_def slice_from_def Let_def dest: in_set_dropD)

lemma addNetworkRequest_entries:
  "e \<in> set (networkRequests (addNetworkRequest r c)) \<Longrightarrow> e = r \<or> e \<in> set (networkRequests c)"
  using set_push_bounded [of "maxNetworkRequests (options c)" "networkRequests c" r]
  by (auto simp: addNetworkRequest_def)

text \<open>
  With a non-empty list of sensitive parameters, no entry that the two interceptors record
  has a sensitive header name.
\<close>

lemma fetch_wrapper_headers_clean:
  assumes ne: "sensitiveParams (options c) \<noteq> []"
    and old: "\<forall>e \<in> set (networkRequests c). \<forall>k \<in> header_names e.
                \<not> spec_isSensitiveHeader (sensitiveParams (options c)) k"
    and new: "e \<in> set (networkRequests (fst (fetch_wrapper P st et input init outcome c)))"
    and k: "k \<in> header_names e"
  shows "\<not> spec_isSensitiveHeader (sensitiveParams (options c)) k"
proof (cases "e \<in> set (networkRequests c)")
  case True
  then show ?thesis using old k by blast
next
  case False
  have req: "\<And>hs arg v. extractHeaders c arg = Some hs \<Longrightarrow> (k, v) \<in> set hs
               \<Longrightarrow> \<not> spec_isSensitiveHeader (sensitiveParams (options c)) k"
    using extractHeaders_keys isSensitiveHeader_spec [OF ne] by (metis fst_conv image_eqI)
  have resp: "\<And>hs v. (k, v) \<in> set (headersToObject c hs)
               \<Longrightarrow> \<not> spec_isSensitiveHeader (sensitiveParams (options c)) k"
    using headersToObject_keys isSensitiveHeader_spec [OF ne] by (metis fst_conv image_eqI)
  show ?thesis
  proof (cases outcome)
    case (Fulfilled response)
    with new False k show ?thesis
      by (auto simp: fetch_wrapper_def Let_def header_names_def
          dest!: addNetworkRequest_entries dest: req resp split: if_splits option.splits)
  next
    case (Rejected err)
    with new False k show ?thesis
      by (auto simp: fetch_wrapper_def Let_def header_names_def
          dest!: addNetworkRequest_entries dest: req split: if_splits option.splits)
  qed
qed

lemma xhr_loadend_headers_clean:
  assumes ne: "sensitiveParams (options c) \<noteq> []"
    and old: "\<forall>e \<in> set (networkRequests c). \<forall>k \<in> header_names e.
                \<not> spec_isSensitiveHeader (sensitiveParams (options c)) k"
    and new: "e \<in> set (networkRequests (xhr_loadend P st et m u x c))"
    and k: "k \<in> header_names e"
  shows "\<not> spec_isSensitiveHeader (sensitiveParams (options c)) k"
proof (cases "e \<in> set (networkRequests c)")
  case True
  then show ?thesis using old k by blast
next
  case False
  have resp: "\<And>hs raw v. getXHRResponseHeaders c raw = Some hs \<Longrightarrow> (k, v) \<in> set hs
               \<Longrightarrow> \<not> spec_isSensitiveHeader (sensitiveParams (options c)) k"
    using getXHRResponseHeaders_keys isSensitiveHeader_spec [OF ne] by (metis fst_conv image_eqI)
  from new False k show ?thesis
    by (auto simp: xhr_loadend_def header_names_def
        dest!: addNetworkRequest_entries dest: resp split: if_splits option.splits)
qed

lemma example_href_unchanged:
  "example_href example_url = ''https://x/y?token=abc&data=safe''"
  by (simp add: example_href_def example_url_def urlencoded_serialize_def urlencode_def
      urlencode_char_def is_alnum_def Let_def)

text \<open>
  C8. The claim: no recorded entry has a header named \<open>Authorization\<close> or \<open>Cookie\<close>, or one
  whose name contains an entry of the configured list. The two fixed names are compared
  inside the callback of \<open>sensitiveParams.some(...)\<close>, which never runs on an empty list:
  with \<open>sensitiveParams: []\<close> and request headers included, a failed call to the
  example URL that carries an \<open>Authorization\<close> header is recorded with that header and
  its value.
\<close>

theorem C8_authorization_header_recorded:
  "networkRequests (fst (fetch_wrapper example_platform 0 1
      (InputString ''https://x/y?token=abc&data=safe'')
      (Some \<lparr> init_method = None,
              init_headers = HeadersObject [(''Authorization'', JString ''Bearer abc'')] \<rparr>)
      (Rejected (JSError ''Failed to fetch''))
      (new_capture (default_options\<lparr> sensitiveParams := [], includeRequestHeaders := True \<rparr>))))
   = [\<lparr> timestamp = 0, entry_method = ''GET'', url = ''https://x/y?token=abc&data=safe'',
        status = Some 0, duration = Some 1, req_size = None,
        requestHeaders = Some [(''Authorization'', ''Bearer abc'')],
        responseHeaders = None, error = Some ''Failed to fetch'' \<rparr>]"
  by (simp add: fetch_wrapper_def new_capture_def default_options_def shouldExcludeUrl_def
      request_method_def request_headers_arg_def isSensitiveHeader_def
      nonempty_or_undefined_def sanitizeUrl_def sanitizeUrl_obj_def example_platform_def
      example_href_unchanged addNetworkRequest_def push_bounded_def thrown_message_def)

section \<open>Network interceptor: a call that fails\<close>

lemma push_bounded_last:
  assumes "0 \<le> cap"
  shows "push_bounded cap xs x \<noteq> [] \<and> last (push_bounded cap xs x) = x"
proof (cases "cap = 0")
  case True
  then show ?thesis by (simp add: push_bounded_zero)
next
  case False
  then have pos: "0 < cap" using assms by simp
  have "length (xs @ [x]) - nat cap < length (xs @ [x])" using pos by simp
  then have ne: "drop (length (xs @ [x]) - nat cap) (xs @ [x]) \<noteq> []"
    and "last (drop (length (xs @ [x]) - nat cap) (xs @ [x])) = last (xs @ [x])"
    by (simp, rule last_drop)
  then show ?thesis using pos by (simp add: push_bounded_pos last_n_def)
qed

text \<open>
  C10, as the code has it. For every call whose URL is not excluded and whose underlying
  \<open>fetch\<close> rejects, with a buffer capacity that is not negative, the wrapper rejects
  with the same value, and the newest entry of the buffer is the entry of this call: its
  status is the number 0, its error is the message of the thrown \<open>Error\<close> (or
  \<open>Network error\<close> when what was thrown is not an \<open>Error\<close>), its URL is the sanitised URL,
  and it has no size and no response headers.
\<close>

theorem C10_fetch_failure_recorded_and_rethrown:
  assumes "\<not> shouldExcludeUrl c (input_url input)"
    and "0 \<le> maxNetworkRequests (options c)"
  shows "snd (fetch_wrapper P startTime endTime input init (Rejected err) c) = Rejected err
       \<and> networkRequests (fst (fetch_wrapper P startTime endTime input init (Rejected err) c)) \<noteq> []
       \<and> last (networkRequests (fst (fetch_wrapper P startTime endTime input init (Rejected err) c)))
           = \<lparr> timestamp = startTime, entry_method = request_method input init,
               url = sanitizeUrl P c (input_url input), status = Some 0,
               duration = Some (endTime - startTime), req_size = None,
               requestHeaders =
                 (if includeRequestHeaders (options c)
                  then extractHeaders c (request_headers_arg input init) else None),
               responseHeaders = None,
               error = Some (case err of JSError m \<Rightarrow> m | JSThrown s \<Rightarrow> ''Network error'') \<rparr>"
proof -
  let ?r = "\<lparr> timestamp = startTime, entry_method = request_method input init,
               url = sanitizeUrl P c (input_url input), status = Some 0,
               duration = Some (endTime - startTime), req_size = None,
               requestHeaders =
                 (if includeRequestHeaders (options c)
                  then extractHeaders c (request_headers_arg input init) else None),
               responseHeaders = None,
               error = Some (case err of JSError m \<Rightarrow> m | JSThrown s \<Rightarrow> ''Network error'') \<rparr>"
  have run: "fetch_wrapper P startTime endTime input init (Rejected err) c
               = (addNetworkRequest ?r c, Rejected err)"
    using assms(1) by (simp add: fetch_wrapper_def Let_def thrown_message_def)
  have "push_bounded (maxNetworkRequests (options c)) (networkRequests c) ?r \<noteq> []
      \<and> last (push_bounded (maxNetworkRequests (options c)) (networkRequests c) ?r) = ?r"
    using assms(2) by (rule push_bounded_last)
  then show ?thesis
    unfolding run by (simp add: addNetworkRequest_def)
qed

text \<open>C10 at a failed call of a new capture object with the default options.\<close>

theorem C10_witness:
  "\<not> shouldExcludeUrl (new_capture default_options) (input_url (InputString ''https://''))
   \<and> 0 \<le> maxNetworkRequests (options (new_capture default_options))
   \<and> fetch_wrapper example_platform 10 25 (InputString ''https://'') None
        (Rejected (JSError ''Failed to fetch'')) (new_capture default_options)
      = ((new_capture default_options)\<lparr> networkRequests :=
            [\<lparr> timestamp = 10, entry_method = ''GET'', url = ''https://'', status = Some 0,
               duration = Some 15, req_size = None, requestHeaders = None,
               responseHeaders = None, error = Some ''Failed to fetch'' \<rparr>] \<rparr>,
         Rejected (JSError ''Failed to fetch''))"
proof -
  have h1: "\<not> shouldExcludeUrl (new_capture default_options) (input_url (InputString ''https://''))"
    by (simp add: shouldExcludeUrl_def new_capture_def default_options_def)
  have h2: "0 \<le> maxNetworkRequests (options (new_capture default_options))"
    by (simp add: new_capture_def default_options_def)
  show ?thesis
    using h1 h2
      C10_fetch_failure_recorded_and_rethrown [OF h1 h2, of example_platform 10 25 None "JSError ''Failed to fetch''"]
    by (simp add: fetch_wrapper_def new_capture_def default_options_def shouldExcludeUrl_def
      request_method_def sanitizeUrl_def example_platform_def addNetworkRequest_def
      push_bounded_def thrown_message_def)
qed

text \<open>
  C10 as the claim states it fails: the status that is recorded for a failed call is not
  absent, it is the number 0.
\<close>

theorem C10_counterexample:
  "status (last (networkRequests (fst (fetch_wrapper example_platform 10 25
      (InputString ''https://'') None (Rejected (JSError ''Failed to fetch''))
      (new_capture default_options))))) = Some 0
   \<and> status (last (networkRequests (fst (fetch_wrapper example_platform 10 25
      (InputString ''https://'') None (Rejected (JSError ''Failed to fetch''))
      (new_capture default_options))))) \<noteq> None"
  by (simp add: fetch_wrapper_def new_capture_def default_options_def shouldExcludeUrl_def
      request_method_def sanitizeUrl_def example_platform_def addNetworkRequest_def
      push_bounded_def thrown_message_def)

section \<open>Retry and backoff\<close>

lemma backoff_step: "i < j \<Longrightarrow> ds @ [2 ^ i * 1000] @ backoff (Suc i) j = ds @ backoff i j"
  by (simp add: backoff_def upt_conv_Cons)

lemma loop_succeeds:
  assumes "int j < retries"
    and "\<forall>k. i \<le> k \<and> k < j \<longrightarrow> isl (attempt (fetch k))"
    and "attempt (fetch j) = Inr response"
    and "i \<le> j"
  shows "makeRequest_loop fetch retries i lastError delays
           = (Inr response, Suc j, delays @ backoff i j)"
  using assms(2,4)
proof (induction "j - i" arbitrary: i lastError delays)
  case 0
  then have "i = j" by simp
  then show ?case
    using assms(1,3) by (simp add: makeRequest_loop.simps [of fetch retries j] backoff_def)
next
  case (Suc n)
  then have lt: "i < j" by simp
  then obtain err where err: "attempt (fetch i) = Inl err"
    using Suc.prems(1) by (cases "attempt (fetch i)") auto
  have more: "int i < retries - 1" using lt assms(1) by simp
  have "makeRequest_loop fetch retries i lastError delays
          = makeRequest_loop fetch retries (Suc i) (Some err) (delays @ [2 ^ i * 1000])"
    using more err by (simp add: makeRequest_loop.simps [of fetch retries i])
  also have "\<dots> = (Inr response, Suc j, (delays @ [2 ^ i * 1000]) @ backoff (Suc i) j)"
    using Suc.hyps(2) Suc.prems lt by (intro Suc.hyps(1)) auto
  finally show ?case using backoff_step [OF lt, of delays] by simp
qed


lemma makeRequest_succeeds:
  assumes "int j < retries"
    and "\<forall>k < j. isl (attempt (fetch k))"
    and "attempt (fetch j) = Inr response"
  shows "makeRequest fetch retries = (Inr response, Suc j, backoff 0 j)"
  using loop_succeeds [of j retries 0 fetch response None "[]"] assms
  by (simp add: makeRequest_def)



lemma attempt_ok: "ok r \<Longrightarrow> attempt (Fulfilled r) = Inr r"
  by (simp add: attempt_def)

lemma attempt_rejected: "attempt (Rejected e) = Inl (as_Error e)"
  by (simp add: attempt_def)


lemma backoff_3: "backoff 0 2 = [1000, 2000]" "backoff 0 1 = [1000]" "backoff 0 0 = []"
  by (simp_all add: backoff_def upt_conv_Cons)

lemma submit_direct:
  assumes "validateConfig isValidUrl config" "\<not> isProxyMode config"
    and "transformPayload_throws config = None"
  shows "submit isValidUrl fetch config
           = (case makeRequest fetch (configured_retries config) of
                (Inl err, n, ds) \<Rightarrow>
                  (failure (thrown_message err ''Failed to submit bug report via webhook''), n, ds)
              | (Inr response, n, ds) \<Rightarrow> (webhook_result response, n, ds))"
  using assms by (simp add: submit_def)

lemma parsed_body_null:
  "parsed_body response = JNull m \<longleftrightarrow> json_body response = Inr (JNull m)"
  by (cases "json_body response") (simp_all add: parsed_body_def)

lemma success_webhook_result:
  assumes "\<forall>m. json_body response \<noteq> Inr (JNull m)"
  shows "success (webhook_result response)"
proof (cases "parsed_body response")
  case (JNull m)
  then show ?thesis using assms by (simp add: parsed_body_null)
next
  case (JObject b ps)
  then show ?thesis by (simp add: webhook_result_def)
qed

lemma null_body_webhook_result:
  "json_body response = Inr (JNull m) \<Longrightarrow> webhook_result response = failure m"
  by (simp add: webhook_result_def parsed_body_def)

text \<open>
  Two failed attempts (a rejected \<open>fetch\<close> or a response that is not \<open>ok\<close>), then an
  \<open>ok\<close> response, with 3 retries configured: \<open>makeRequest\<close> returns that response after
  exactly 3 underlying calls, having waited 1000 ms after the first failure and 2000 ms
  after the second, and the webhook adapter returns what it makes of that response, a
  success result unless the body is \<open>null\<close>.
\<close>

lemma two_failures_then_third_response:
  assumes "validateConfig isValidUrl config" and "\<not> isProxyMode config"
    and "transformPayload_throws config = None"
    and "configured_retries config = 3"
    and "isl (attempt (fetch 0))" and "isl (attempt (fetch 1))"
    and "attempt (fetch 2) = Inr response"
  shows "makeRequest fetch 3 = (Inr response, 3, [1000, 2000])
       \<and> submit isValidUrl fetch config = (webhook_result response, 3, [1000, 2000])
       \<and> ((\<forall>m. json_body response \<noteq> Inr (JNull m)) \<longrightarrow> success (webhook_result response))"
proof -
  have "\<forall>k < 2. isl (attempt (fetch k))"
    using assms(5,6) by (auto simp: less_Suc_eq numeral_2_eq_2)
  then have "makeRequest fetch 3 = (Inr response, Suc 2, backoff 0 2)"
    using assms(7) by (intro makeRequest_succeeds) auto
  then have run: "makeRequest fetch 3 = (Inr response, 3, [1000, 2000])"
    by (simp add: backoff_3)
  then show ?thesis
    using assms(1-4) by (simp add: submit_direct success_webhook_result)
qed

lemma example_config_direct:
  "validateConfig any_url_valid example_config" "\<not> isProxyMode example_config"
  "transformPayload_throws example_config = None" "configured_retries example_config = 3"
  by (simp_all add: validateConfig_def isProxyMode_def example_config_def configured_retries_def
      any_url_valid_def)

lemma two_failures_then_ok_example:
  "submit any_url_valid two_failures_then_ok example_config
      = (\<lparr> success = True, issueId = Some ''42'', issueUrl = None,
           resp_message = Some ''Bug report submitted successfully via webhook'',
           resp_error = None \<rparr>, 3, [1000, 2000])"
proof -
  have f: "isl (attempt (two_failures_then_ok 0))" "isl (attempt (two_failures_then_ok 1))"
    by (simp_all add: attempt_def two_failures_then_ok_def)
  have s: "attempt (two_failures_then_ok 2) = Inr ok_response"
    by (simp add: attempt_def ok_def ok_response_def two_failures_then_ok_def)
  have "submit any_url_valid two_failures_then_ok example_config
          = (webhook_result ok_response, 3, [1000, 2000])"
    using two_failures_then_third_response
            [of any_url_valid example_config two_failures_then_ok ok_response]
      example_config_direct f s by simp
  then show ?thesis
    by (simp add: webhook_result_def parsed_body_def ok_response_def)
qed

text \<open>
  C7. The claim: an adapter configured with 3 retries whose underlying call fails twice
  and succeeds on the third attempt returns a success result after exactly 3 underlying
  calls, with delays of 1 s and 2 s. The calls and the delays are as the claim says. The
  result is not: the example webhook's third call answers \<open>200\<close> with the JSON body
  \<open>null\<close>, the read \<open>result.id\<close> throws inside the \<open>try\<close> block, and the adapter
  returns an error result although the destination accepted the report.
\<close>

theorem C7_null_body_on_third_attempt_is_an_error:
  "isl (attempt (two_failures_then_null 0)) \<and> isl (attempt (two_failures_then_null 1))
   \<and> attempt (two_failures_then_null 2) = Inr null_response
   \<and> makeRequest two_failures_then_null 3 = (Inr null_response, 3, [1000, 2000])
   \<and> submit any_url_valid two_failures_then_null example_config
       = (\<lparr> success = False, issueId = None, issueUrl = None, resp_message = None,
            resp_error = Some ''Cannot read properties of null'' \<rparr>, 3, [1000, 2000])"
proof -
  have f: "isl (attempt (two_failures_then_null 0))" "isl (attempt (two_failures_then_null 1))"
    by (simp_all add: attempt_def two_failures_then_null_def)
  have s: "attempt (two_failures_then_null 2) = Inr null_response"
    by (simp add: attempt_def ok_def null_response_def two_failures_then_null_def)
  have run: "makeRequest two_failures_then_null 3 = (Inr null_response, 3, [1000, 2000])
       \<and> submit any_url_valid two_failures_then_null example_config
           = (webhook_result null_response, 3, [1000, 2000])"
    using two_failures_then_third_response
            [of any_url_valid example_config two_failures_then_null null_response]
      example_config_direct f s by simp
  have "webhook_result null_response = failure ''Cannot read properties of null''"
    by (rule null_body_webhook_result) (simp add: null_response_def)
  then show ?thesis
    using f s run by (simp add: failure_def)
qed





text \<open>In proxy mode a body that is not JSON gives an error result, without another call.\<close>

lemma proxy_malformed_body_is_an_error:
  assumes "int j < 3" and "\<forall>k < j. isl (attempt (fetch k))"
    and "fetch j = Fulfilled response" and "ok response" and "json_body response = Inl e"
  shows "submitViaProxy fetch
           = (failure (thrown_message e ''Failed to submit via proxy''), Suc j, backoff 0 j)"
proof -
  have "makeRequest fetch 3 = (Inr response, Suc j, backoff 0 j)"
    using assms(1-4) by (intro makeRequest_succeeds) (simp_all add: attempt_ok)
  then show ?thesis
    using assms(5) by (simp add: submitViaProxy_def)
qed

section \<open>Snapshots of the buffers\<close>

text \<open>The arrays in the store hold what the lists of the first model hold.\<close>

lemma h_addConsoleLog_contents:
  "h_consoleLogs (h_addConsoleLog e c)
     = push_bounded (maxConsoleLogs (h_options c)) (h_consoleLogs c) e"
  by (simp add: h_addConsoleLog_def h_consoleLogs_def push_bounded_def array_write_def
      alloc_def Let_def)

lemma h_addNetworkRequest_contents:
  "h_networkRequests (h_addNetworkRequest r c)
     = push_bounded (maxNetworkRequests (h_options c)) (h_networkRequests c) r"
  by (simp add: h_addNetworkRequest_def h_networkRequests_def push_bounded_def array_write_def
      alloc_def Let_def)

lemma h_addConsoleLog_keeps:
  assumes "wf_capture c" and "a < fresh (log_store c)" and "a \<noteq> consoleLogs_ref c"
  shows "wf_capture (h_addConsoleLog e c)
       \<and> a < fresh (log_store (h_addConsoleLog e c))
       \<and> a \<noteq> consoleLogs_ref (h_addConsoleLog e c)
       \<and> cells (log_store (h_addConsoleLog e c)) a = cells (log_store c) a
       \<and> net_store (h_addConsoleLog e c) = net_store c
       \<and> networkRequests_ref (h_addConsoleLog e c) = networkRequests_ref c"
  using assms
  by (auto simp: h_addConsoleLog_def wf_capture_def array_write_def alloc_def Let_def)

lemma h_addNetworkRequest_keeps:
  assumes "wf_capture c" and "a < fresh (net_store c)" and "a \<noteq> networkRequests_ref c"
  shows "wf_capture (h_addNetworkRequest r c)
       \<and> a < fresh (net_store (h_addNetworkRequest r c))
       \<and> a \<noteq> networkRequests_ref (h_addNetworkRequest r c)
       \<and> cells (net_store (h_addNetworkRequest r c)) a = cells (net_store c) a
       \<and> log_store (h_addNetworkRequest r c) = log_store c
       \<and> consoleLogs_ref (h_addNetworkRequest r c) = consoleLogs_ref c"
  using assms
  by (auto simp: h_addNetworkRequest_def wf_capture_def array_write_def alloc_def Let_def)

lemma h_addConsoleLog_wf: "wf_capture c \<Longrightarrow> wf_capture (h_addConsoleLog e c)"
  by (auto simp: h_addConsoleLog_def wf_capture_def array_write_def alloc_def Let_def)

lemma h_addNetworkRequest_wf: "wf_capture c \<Longrightarrow> wf_capture (h_addNetworkRequest r c)"
  by (auto simp: h_addNetworkRequest_def wf_capture_def array_write_def alloc_def Let_def)

lemma h_addNetworkRequest_log:
  "log_store (h_addNetworkRequest r c) = log_store c
   \<and> consoleLogs_ref (h_addNetworkRequest r c) = consoleLogs_ref c"
  by (auto simp: h_addNetworkRequest_def Let_def alloc_def)

lemma h_addConsoleLog_net:
  "net_store (h_addConsoleLog e c) = net_store c
   \<and> networkRequests_ref (h_addConsoleLog e c) = networkRequests_ref c"
  by (auto simp: h_addConsoleLog_def Let_def alloc_def)

lemma h_push_keeps_log_snapshot:
  assumes "wf_capture c" and "a < fresh (log_store c)" and "a \<noteq> consoleLogs_ref c"
  shows "wf_capture (h_push p c) \<and> a < fresh (log_store (h_push p c))
       \<and> a \<noteq> consoleLogs_ref (h_push p c)
       \<and> cells (log_store (h_push p c)) a = cells (log_store c) a"
proof (cases p)
  case (ConsolePush e)
  then show ?thesis using h_addConsoleLog_keeps [OF assms, of e] by simp
next
  case (NetworkPush r)
  then show ?thesis
    using assms h_addNetworkRequest_wf [of c r] h_addNetworkRequest_log [of r c] by simp
qed

lemma h_push_keeps_net_snapshot:
  assumes "wf_capture c" and "a < fresh (net_store c)" and "a \<noteq> networkRequests_ref c"
  shows "wf_capture (h_push p c) \<and> a < fresh (net_store (h_push p c))
       \<and> a \<noteq> networkRequests_ref (h_push p c)
       \<and> cells (net_store (h_push p c)) a = cells (net_store c) a"
proof (cases p)
  case (NetworkPush r)
  then show ?thesis using h_addNetworkRequest_keeps [OF assms, of r] by simp
next
  case (ConsolePush e)
  then show ?thesis
    using assms h_addConsoleLog_wf [of c e] h_addConsoleLog_net [of e c] by simp
qed

lemma h_pushes_keep_log_snapshot:
  assumes "wf_capture c" and "a < fresh (log_store c)" and "a \<noteq> consoleLogs_ref c"
  shows "wf_capture (h_pushes ps c) \<and> a < fresh (log_store (h_pushes ps c))
       \<and> a \<noteq> consoleLogs_ref (h_pushes ps c)
       \<and> cells (log_store (h_pushes ps c)) a = cells (log_store c) a"
proof (induction ps rule: rev_induct)
  case Nil
  show ?case using assms by (simp add: h_pushes_def)
next
  case (snoc p ps)
  have "h_pushes (ps @ [p]) c = h_push p (h_pushes ps c)" by (simp add: h_pushes_def)
  then show ?case
    using snoc h_push_keeps_log_snapshot [of "h_pushes ps c" a p] by simp
qed

lemma h_pushes_keep_net_snapshot:
  assumes "wf_capture c" and "a < fresh (net_store c)" and "a \<noteq> networkRequests_ref c"
  shows "wf_capture (h_pushes ps c) \<and> a < fresh (net_store (h_pushes ps c))
       \<and> a \<noteq> networkRequests_ref (h_pushes ps c)
       \<and> cells (net_store (h_pushes ps c)) a = cells (net_store c) a"
proof (induction ps rule: rev_induct)
  case Nil
  show ?case using assms by (simp add: h_pushes_def)
next
  case (snoc p ps)
  have "h_pushes (ps @ [p]) c = h_push p (h_pushes ps c)" by (simp add: h_pushes_def)
  then show ?case
    using snoc h_push_keeps_net_snapshot [of "h_pushes ps c" a p] by simp
qed

lemma getConsoleLogs_copy:
  assumes "wf_capture c" and "getConsoleLogs c = (a, c')"
  shows "wf_capture c' \<and> a < fresh (log_store c') \<and> a \<noteq> consoleLogs_ref c'
       \<and> cells (log_store c') a = h_consoleLogs c
       \<and> h_consoleLogs c' = h_consoleLogs c \<and> h_networkRequests c' = h_networkRequests c"
  using assms
  by (auto simp: getConsoleLogs_def wf_capture_def alloc_def h_consoleLogs_def
      h_networkRequests_def)

lemma getNetworkRequests_copy:
  assumes "wf_capture c" and "getNetworkRequests c = (a, c')"
  shows "wf_capture c' \<and> a < fresh (net_store c') \<and> a \<noteq> networkRequests_ref c'
       \<and> cells (net_store c') a = h_networkRequests c
       \<and> h_consoleLogs c' = h_consoleLogs c \<and> h_networkRequests c' = h_networkRequests c"
  using assms
  by (auto simp: getNetworkRequests_def wf_capture_def alloc_def h_consoleLogs_def
      h_networkRequests_def)

lemma captureReport_copy:
  assumes "wf_capture c" and "captureReport b shot additionalData c = (r, c')"
    and "p_consoleLogs additionalData = None" and "p_networkRequests additionalData = None"
  shows "wf_capture c'
       \<and> report_consoleLogs r < fresh (log_store c') \<and> report_consoleLogs r \<noteq> consoleLogs_ref c'
       \<and> report_networkRequests r < fresh (net_store c')
       \<and> report_networkRequests r \<noteq> networkRequests_ref c'
       \<and> cells (log_store c') (report_consoleLogs r) = h_consoleLogs c
       \<and> cells (net_store c') (report_networkRequests r) = h_networkRequests c
       \<and> h_consoleLogs c' = h_consoleLogs c \<and> h_networkRequests c' = h_networkRequests c"
  using assms
  by (auto simp: captureReport_def wf_capture_def alloc_def h_consoleLogs_def
      h_networkRequests_def override_def)

lemma write_elsewhere_log:
  "a \<noteq> consoleLogs_ref c \<Longrightarrow>
   h_consoleLogs (c\<lparr> log_store := array_write a xs (log_store c) \<rparr>) = h_consoleLogs c
   \<and> h_networkRequests (c\<lparr> log_store := array_write a xs (log_store c) \<rparr>) = h_networkRequests c"
  by (simp add: h_consoleLogs_def h_networkRequests_def array_write_def)

lemma write_elsewhere_net:
  "a \<noteq> networkRequests_ref c \<Longrightarrow>
   h_networkRequests (c\<lparr> net_store := array_write a xs (net_store c) \<rparr>) = h_networkRequests c
   \<and> h_consoleLogs (c\<lparr> net_store := array_write a xs (net_store c) \<rparr>) = h_consoleLogs c"
  by (simp add: h_consoleLogs_def h_networkRequests_def array_write_def)


text \<open>
  C9. \<open>getConsoleLogs\<close>, \<open>getNetworkRequests\<close> and the two arrays of a report that
  \<open>captureReport\<close> builds (when the caller's fields do not replace them) are new arrays,
  never the arrays the capture object holds: they have the buffers' contents, the buffers
  are unchanged by the call, whatever a caller afterwards writes into a returned array
  leaves both buffers as they were, and a returned array still holds the same entries
  after any sequence of later pushes into the buffers.
\<close>

theorem C9_accessors_return_copies:
  assumes "wf_capture c"
  shows "(\<forall>a c'. getConsoleLogs c = (a, c') \<longrightarrow>
            a \<noteq> consoleLogs_ref c' \<and> cells (log_store c') a = h_consoleLogs c
            \<and> h_consoleLogs c' = h_consoleLogs c \<and> h_networkRequests c' = h_networkRequests c
            \<and> (\<forall>xs. h_consoleLogs (c'\<lparr> log_store := array_write a xs (log_store c') \<rparr>)
                      = h_consoleLogs c
                    \<and> h_networkRequests (c'\<lparr> log_store := array_write a xs (log_store c') \<rparr>)
                      = h_networkRequests c)
            \<and> (\<forall>ps. cells (log_store (h_pushes ps c')) a = h_consoleLogs c))
       \<and> (\<forall>a c'. getNetworkRequests c = (a, c') \<longrightarrow>
            a \<noteq> networkRequests_ref c' \<and> cells (net_store c') a = h_networkRequests c
            \<and> h_consoleLogs c' = h_consoleLogs c \<and> h_networkRequests c' = h_networkRequests c
            \<and> (\<forall>xs. h_networkRequests (c'\<lparr> net_store := array_write a xs (net_store c') \<rparr>)
                      = h_networkRequests c
                    \<and> h_consoleLogs (c'\<lparr> net_store := array_write a xs (net_store c') \<rparr>)
                      = h_consoleLogs c)
            \<and> (\<forall>ps. cells (net_store (h_pushes ps c')) a = h_networkRequests c))
       \<and> (\<forall>r c'. captureReport b shot additionalData c = (r, c')
              \<and> p_consoleLogs additionalData = None \<and> p_networkRequests additionalData = None \<longrightarrow>
            report_consoleLogs r \<noteq> consoleLogs_ref c'
            \<and> report_networkRequests r \<noteq> networkRequests_ref c'
            \<and> cells (log_store c') (report_consoleLogs r) = h_consoleLogs c
            \<and> cells (net_store c') (report_networkRequests r) = h_networkRequests c
            \<and> h_consoleLogs c' = h_consoleLogs c \<and> h_networkRequests c' = h_networkRequests c
            \<and> (\<forall>xs ys.
                  h_consoleLogs
                    (c'\<lparr> log_store := array_write (report_consoleLogs r) xs (log_store c'),
                         net_store := array_write (report_networkRequests r) ys (net_store c') \<rparr>)
                    = h_consoleLogs c
                  \<and> h_networkRequests
                    (c'\<lparr> log_store := array_write (report_consoleLogs r) xs (log_store c'),
                         net_store := array_write (report_networkRequests r) ys (net_store c') \<rparr>)
                    = h_networkRequests c)
            \<and> (\<forall>ps. cells (log_store (h_pushes ps c')) (report_consoleLogs r) = h_consoleLogs c
                    \<and> cells (net_store (h_pushes ps c')) (report_networkRequests r)
                        = h_networkRequests c))"
proof (intro conjI allI impI)
  fix a c'
  assume g: "getConsoleLogs c = (a, c')"
  note cp = getConsoleLogs_copy [OF assms g]
  show "a \<noteq> consoleLogs_ref c'" "cells (log_store c') a = h_consoleLogs c"
    "h_consoleLogs c' = h_consoleLogs c" "h_networkRequests c' = h_networkRequests c"
    using cp by simp_all
  show "h_consoleLogs (c'\<lparr> log_store := array_write a xs (log_store c') \<rparr>) = h_consoleLogs c"
    "h_networkRequests (c'\<lparr> log_store := array_write a xs (log_store c') \<rparr>) = h_networkRequests c"
    for xs
    using cp write_elsewhere_log [of a c' xs] by simp_all
  show "cells (log_store (h_pushes ps c')) a = h_consoleLogs c" for ps
    using cp h_pushes_keep_log_snapshot [of c' a ps] by simp
next
  fix a c'
  assume g: "getNetworkRequests c = (a, c')"
  note cp = getNetworkRequests_copy [OF assms g]
  show "a \<noteq> networkRequests_ref c'" "cells (net_store c') a = h_networkRequests c"
    "h_consoleLogs c' = h_consoleLogs c" "h_networkRequests c' = h_networkRequests c"
    using cp by simp_all
  show "h_networkRequests (c'\<lparr> net_store := array_write a xs (net_store c') \<rparr>) = h_networkRequests c"
    "h_consoleLogs (c'\<lparr> net_store := array_write a xs (net_store c') \<rparr>) = h_consoleLogs c"
    for xs
    using cp write_elsewhere_net [of a c' xs] by simp_all
  show "cells (net_store (h_pushes ps c')) a = h_networkRequests c" for ps
    using cp h_pushes_keep_net_snapshot [of c' a ps] by simp
next
  fix r c'
  assume g: "captureReport b shot additionalData c = (r, c')
              \<and> p_consoleLogs additionalData = None \<and> p_networkRequests additionalData = None"
  then have cp: "wf_capture c'
       \<and> report_consoleLogs r < fresh (log_store c') \<and> report_consoleLogs r \<noteq> consoleLogs_ref c'
       \<and> report_networkRequests r < fresh (net_store c')
       \<and> report_networkRequests r \<noteq> networkRequests_ref c'
       \<and> cells (log_store c') (report_consoleLogs r) = h_consoleLogs c
       \<and> cells (net_store c') (report_networkRequests r) = h_networkRequests c
       \<and> h_consoleLogs c' = h_consoleLogs c \<and> h_networkRequests c' = h_networkRequests c"
    using captureReport_copy [OF assms, of b shot additionalData r c'] by simp
  show "report_consoleLogs r \<noteq> consoleLogs_ref c'"
    "report_networkRequests r \<noteq> networkRequests_ref c'"
    "cells (log_store c') (report_consoleLogs r) = h_consoleLogs c"
    "cells (net_store c') (report_networkRequests r) = h_networkRequests c"
    "h_consoleLogs c' = h_consoleLogs c" "h_networkRequests c' = h_networkRequests c"
    using cp by simp_all
  show "h_consoleLogs
          (c'\<lparr> log_store := array_write (report_consoleLogs r) xs (log_store c'),
               net_store := array_write (report_networkRequests r) ys (net_store c') \<rparr>)
          = h_consoleLogs c"
       "h_networkRequests
          (c'\<lparr> log_store := array_write (report_consoleLogs r) xs (log_store c'),
               net_store := array_write (report_networkRequests r) ys (net_store c') \<rparr>)
          = h_networkRequests c" for xs ys
    using cp by (simp_all add: h_consoleLogs_def h_networkRequests_def array_write_def)
  show "cells (log_store (h_pushes ps c')) (report_consoleLogs r) = h_consoleLogs c"
       "cells (net_store (h_pushes ps c')) (report_networkRequests r) = h_networkRequests c" for ps
    using cp h_pushes_keep_log_snapshot [of c' "report_consoleLogs r" ps]
      h_pushes_keep_net_snapshot [of c' "report_networkRequests r" ps] by simp_all
qed

lemma new_capture_h_wf: "wf_capture (new_capture_h opts)"
  by (simp add: wf_capture_def new_capture_h_def)

text \<open>
  C9 on a capture object with one log entry: the snapshot is the array at address 1, the
  buffer stays at address 0, and after a second push the buffer has two entries and the
  snapshot still one.
\<close>

theorem C9_witness:
  "wf_capture (h_pushes [ConsolePush (example_log ''first'')] (new_capture_h default_options))
   \<and> fst (getConsoleLogs
            (h_pushes [ConsolePush (example_log ''first'')] (new_capture_h default_options))) = 1
   \<and> consoleLogs_ref (snd (getConsoleLogs
            (h_pushes [ConsolePush (example_log ''first'')] (new_capture_h default_options)))) = 0
   \<and> h_consoleLogs
        (h_pushes [ConsolePush (example_log ''second'')]
           (snd (getConsoleLogs
              (h_pushes [ConsolePush (example_log ''first'')] (new_capture_h default_options)))))
       = [example_log ''first'', example_log ''second'']
   \<and> cells (log_store
        (h_pushes [ConsolePush (example_log ''second'')]
           (snd (getConsoleLogs
              (h_pushes [ConsolePush (example_log ''first'')] (new_capture_h default_options))))))
        1
       = [example_log ''first'']"
proof -
  let ?c = "h_pushes [ConsolePush (example_log ''first'')] (new_capture_h default_options)"
  have wf: "wf_capture ?c"
    using h_pushes_keep_log_snapshot [of "new_capture_h default_options" 0]
    by (simp add: h_pushes_def h_addConsoleLog_wf new_capture_h_wf)
  have run: "getConsoleLogs ?c = (fst (getConsoleLogs ?c), snd (getConsoleLogs ?c))" by simp
  have empty: "h_consoleLogs (new_capture_h default_options) = []"
    "h_options (new_capture_h default_options) = default_options"
    by (simp_all add: new_capture_h_def h_consoleLogs_def)
  have "h_consoleLogs ?c
          = push_bounded (maxConsoleLogs default_options) [] (example_log ''first'')"
    using h_addConsoleLog_contents [of "example_log ''first''" "new_capture_h default_options"]
    by (simp add: h_pushes_def empty)
  then have buf: "h_consoleLogs ?c = [example_log ''first'']"
    by (simp add: push_bounded_def default_options_def)
  have a: "fst (getConsoleLogs ?c) = 1"
    by (simp add: getConsoleLogs_def alloc_def h_pushes_def h_addConsoleLog_def
        new_capture_h_def default_options_def array_write_def Let_def split_def)
  have r: "consoleLogs_ref (snd (getConsoleLogs ?c)) = 0"
    by (simp add: getConsoleLogs_def alloc_def h_pushes_def h_addConsoleLog_def
        new_capture_h_def default_options_def array_write_def Let_def split_def)
  have o: "h_options (snd (getConsoleLogs ?c)) = default_options"
    by (simp add: getConsoleLogs_def alloc_def h_pushes_def h_addConsoleLog_def
        new_capture_h_def array_write_def Let_def split_def)
  from C9_accessors_return_copies [OF wf]
  have snap: "cells (log_store (h_pushes [ConsolePush (example_log ''second'')]
                       (snd (getConsoleLogs ?c)))) (fst (getConsoleLogs ?c)) = h_consoleLogs ?c"
    and same: "h_consoleLogs (snd (getConsoleLogs ?c)) = h_consoleLogs ?c"
    using run by blast+
  have "h_consoleLogs (h_pushes [ConsolePush (example_log ''second'')] (snd (getConsoleLogs ?c)))
          = push_bounded (maxConsoleLogs default_options) [example_log ''first'']
              (example_log ''second'')"
    using same buf o
      h_addConsoleLog_contents [of "example_log ''second''" "snd (getConsoleLogs ?c)"]
    by (simp add: h_pushes_def)
  then have "h_consoleLogs (h_pushes [ConsolePush (example_log ''second'')] (snd (getConsoleLogs ?c)))
          = [example_log ''first'', example_log ''second'']"
    by (simp add: push_bounded_def default_options_def)
  then show ?thesis using wf a r snap buf by simp
qed

section \<open>Dispatcher: at least one success\<close>

lemma successful_value_Some:
  "successful_value r = Some v \<longleftrightarrow> r = Fulfilled v \<and> success v"
  by (cases r) auto

lemma successfulResults_Nil:
  "successfulResults results = [] \<longleftrightarrow> (\<forall>v. Fulfilled v \<in> set results \<longrightarrow> \<not> success v)"
proof (induction results)
  case Nil
  show ?case by (simp add: successfulResults_def)
next
  case (Cons r rs)
  show ?case
  proof (cases "successful_value r")
    case None
    then have "\<forall>v. r = Fulfilled v \<longrightarrow> \<not> success v"
      by (cases r) (auto split: if_splits)
    then show ?thesis
      using Cons None by (auto simp: successfulResults_def)
  next
    case (Some v)
    then show ?thesis
      by (auto simp: successfulResults_def successful_value_Some)
  qed
qed

lemma successfulResults_Cons:
  "successfulResults results = v # rest \<Longrightarrow>
   \<exists>pre post. results = pre @ Fulfilled v # post \<and> success v
     \<and> (\<forall>w. Fulfilled w \<in> set pre \<longrightarrow> \<not> success w)"
proof (induction results)
  case Nil
  then show ?case by (simp add: successfulResults_def)
next
  case (Cons r rs)
  show ?case
  proof (cases "successful_value r")
    case None
    then have r: "\<forall>w. r = Fulfilled w \<longrightarrow> \<not> success w"
      by (cases r) (auto split: if_splits)
    from Cons.prems None have "successfulResults rs = v # rest"
      by (simp add: successfulResults_def)
    then obtain pre post where
      "rs = pre @ Fulfilled v # post \<and> success v \<and> (\<forall>w. Fulfilled w \<in> set pre \<longrightarrow> \<not> success w)"
      using Cons.IH by blast
    then have "r # rs = (r # pre) @ Fulfilled v # post \<and> success v
                 \<and> (\<forall>w. Fulfilled w \<in> set (r # pre) \<longrightarrow> \<not> success w)"
      using r by auto
    then show ?thesis by blast
  next
    case (Some u)
    with Cons.prems have "u = v"
      by (simp add: successfulResults_def)
    then have "r # rs = [] @ Fulfilled v # rs \<and> success v
                 \<and> (\<forall>w. Fulfilled w \<in> set [] \<longrightarrow> \<not> success w)"
      using Some by (simp add: successful_value_Some)
    then show ?thesis by blast
  qed
qed

lemma decide_empty: "decide [] = Inl ''No integrations configured''"
  by (simp add: decide_def)

lemma decide_all_failed:
  assumes "results \<noteq> []" and "\<forall>v. Fulfilled v \<in> set results \<longrightarrow> \<not> success v"
  shows "decide results
           = Inl (''All integrations failed: '' @ join '', '' (map failure_message results))"
  using assms successfulResults_Nil [of results] by (simp add: decide_def)

lemma decide_success:
  assumes "results \<noteq> []" and "decide results = Inr v"
  shows "\<exists>pre post. results = pre @ Fulfilled v # post \<and> success v
           \<and> (\<forall>w. Fulfilled w \<in> set pre \<longrightarrow> \<not> success w)"
proof (cases "successfulResults results")
  case Nil
  then show ?thesis using assms by (simp add: decide_def)
next
  case (Cons u rest)
  then have "u = v" using assms by (simp add: decide_def)
  then show ?thesis using Cons successfulResults_Cons by blast
qed

lemma decide_success_iff:
  assumes "results \<noteq> []"
  shows "(\<exists>v. decide results = Inr v) \<longleftrightarrow> (\<exists>v. Fulfilled v \<in> set results \<and> success v)"
proof
  assume "\<exists>v. decide results = Inr v"
  then obtain v where "decide results = Inr v" by blast
  then show "\<exists>v. Fulfilled v \<in> set results \<and> success v"
    using decide_success [OF assms] by fastforce
next
  assume "\<exists>v. Fulfilled v \<in> set results \<and> success v"
  then have "successfulResults results \<noteq> []"
    using successfulResults_Nil [of results] by blast
  then obtain u rest where "successfulResults results = u # rest"
    by (cases "successfulResults results") auto
  then show "\<exists>v. decide results = Inr v"
    using assms by (simp add: decide_def)
qed

lemma integrationPromises_started:
  assumes "(name, Some cfg) \<in> set es" and "registry name = Some integration"
  shows "integration finalData cfg \<in> set (integrationPromises registry (Some es) finalData)"
  using assms by (force simp: integrationPromises_def)

lemma integrationPromises_length:
  "length (integrationPromises registry (Some es) finalData)
     = length (filter (\<lambda>(name, cfg). cfg \<noteq> None \<and> registry name \<noteq> None) es)"
  by (induction es) (auto simp: integrationPromises_def split: option.splits)

lemma integrationPromises_absent: "integrationPromises registry None finalData = []"
  by (simp add: integrationPromises_def)


text \<open>
  What the dispatcher decides from the promises it started. It starts the \<open>submit\<close> of
  every entry that has a configuration and whose name is in the table of adapters, one
  promise per such entry, and decides once all have settled. With no promise started it
  fails with \<open>No integrations configured\<close>. Otherwise it succeeds if and only if some
  adapter returned a success result; the result it surfaces is the first successful one
  in the order of the entries; and when every started submission failed it fails with
  \<open>All integrations failed:\<close> followed by one message per started submission.
\<close>

lemma dispatch_over_started_promises:
  "(\<forall>name cfg integration.
       entries = Some es \<and> (name, Some cfg) \<in> set es \<and> registry name = Some integration \<longrightarrow>
       integration finalData cfg \<in> set (integrationPromises registry entries finalData))
   \<and> (entries = Some es \<longrightarrow>
        length (integrationPromises registry entries finalData)
          = length (filter (\<lambda>(name, cfg). cfg \<noteq> None \<and> registry name \<noteq> None) es))
   \<and> (integrationPromises registry entries finalData = [] \<longrightarrow>
        dispatch registry entries finalData = Inl ''No integrations configured'')
   \<and> (integrationPromises registry entries finalData \<noteq> [] \<longrightarrow>
        ((\<exists>v. dispatch registry entries finalData = Inr v) \<longleftrightarrow>
           (\<exists>v. Fulfilled v \<in> set (integrationPromises registry entries finalData) \<and> success v))
        \<and> (\<forall>v. dispatch registry entries finalData = Inr v \<longrightarrow>
              (\<exists>pre post. integrationPromises registry entries finalData = pre @ Fulfilled v # post
                 \<and> success v \<and> (\<forall>w. Fulfilled w \<in> set pre \<longrightarrow> \<not> success w)))
        \<and> ((\<forall>v. Fulfilled v \<in> set (integrationPromises registry entries finalData)
                  \<longrightarrow> \<not> success v) \<longrightarrow>
              dispatch registry entries finalData
                = Inl (''All integrations failed: ''
                       @ join '', '' (map failure_message
                                        (integrationPromises registry entries finalData)))
              \<and> length (map failure_message (integrationPromises registry entries finalData))
                  = length (integrationPromises registry entries finalData)))"
proof (intro conjI allI impI)
  fix name cfg integration
  assume "entries = Some es \<and> (name, Some cfg) \<in> set es \<and> registry name = Some integration"
  then show "integration finalData cfg \<in> set (integrationPromises registry entries finalData)"
    using integrationPromises_started by fastforce
next
  assume "entries = Some es"
  then show "length (integrationPromises registry entries finalData)
          = length (filter (\<lambda>(name, cfg). cfg \<noteq> None \<and> registry name \<noteq> None) es)"
    by (simp add: integrationPromises_length)
next
  assume "integrationPromises registry entries finalData = []"
  then show "dispatch registry entries finalData = Inl ''No integrations configured''"
    by (simp add: dispatch_def decide_empty)
next
  assume ne: "integrationPromises registry entries finalData \<noteq> []"
  show "(\<exists>v. dispatch registry entries finalData = Inr v) \<longleftrightarrow>
           (\<exists>v. Fulfilled v \<in> set (integrationPromises registry entries finalData) \<and> success v)"
    unfolding dispatch_def using ne by (rule decide_success_iff)
next
  fix v
  assume ne: "integrationPromises registry entries finalData \<noteq> []"
    and "dispatch registry entries finalData = Inr v"
  then show "\<exists>pre post. integrationPromises registry entries finalData = pre @ Fulfilled v # post
                 \<and> success v \<and> (\<forall>w. Fulfilled w \<in> set pre \<longrightarrow> \<not> success w)"
    unfolding dispatch_def by (rule decide_success)
next
  assume ne: "integrationPromises registry entries finalData \<noteq> []"
    and "\<forall>v. Fulfilled v \<in> set (integrationPromises registry entries finalData) \<longrightarrow> \<not> success v"
  then show "dispatch registry entries finalData
                = Inl (''All integrations failed: ''
                       @ join '', '' (map failure_message
                                        (integrationPromises registry entries finalData)))"
    unfolding dispatch_def by (rule decide_all_failed)
next
  show "length (map failure_message (integrationPromises registry entries finalData))
                  = length (integrationPromises registry entries finalData)"
    by simp
qed

lemma example_promises:
  "integrationPromises (example_registry r) example_integrations ()
     = [Rejected (JSError ''network down''), Fulfilled (failure ''channel not found''),
        Fulfilled r]"
  by (simp add: integrationPromises_def example_registry_def example_integrations_def
      integrations_def example_adapters_def rejecting_adapter_def refusing_adapter_def
      returning_adapter_def)

text \<open>
  Three destinations of the table: when exactly one succeeds the result is that
  destination's; when all three fail the failure carries three messages; with no
  destination the dispatch fails.
\<close>

lemma dispatch_three_destinations:
  "integrationPromises (example_registry example_success) example_integrations () \<noteq> []
   \<and> dispatch (example_registry example_success) example_integrations () = Inr example_success
   \<and> dispatch (example_registry (failure ''HTTP 500: Server Error'')) example_integrations ()
       = Inl ''All integrations failed: network down, channel not found, HTTP 500: Server Error''
   \<and> length (map failure_message
        (integrationPromises (example_registry (failure ''HTTP 500: Server Error''))
           example_integrations ())) = 3
   \<and> dispatch (example_registry example_success) (Some []) ()
       = Inl ''No integrations configured''"
proof -
  have ok: "success example_success" by (simp add: example_success_def)
  have bad: "\<not> success (failure m)" for m by (simp add: failure_def)
  note one_ok =
    dispatch_over_started_promises
      [of example_integrations "[]" "example_registry example_success" "()",
        THEN conjunct2, THEN conjunct2, THEN conjunct2, simplified example_promises]
  note all_fail =
    dispatch_over_started_promises
      [of example_integrations "[]" "example_registry (failure ''HTTP 500: Server Error'')" "()",
        THEN conjunct2, THEN conjunct2, THEN conjunct2, simplified example_promises]
  obtain v where v: "dispatch (example_registry example_success) example_integrations () = Inr v"
    using one_ok ok by auto
  then obtain pre post where
    "[Rejected (JSError ''network down''), Fulfilled (failure ''channel not found''),
      Fulfilled example_success] = pre @ Fulfilled v # post \<and> success v"
    using one_ok by blast
  then have "v = example_success"
    using bad by (auto simp: append_eq_Cons_conv Cons_eq_append_conv)
  then have one: "dispatch (example_registry example_success) example_integrations ()
                    = Inr example_success"
    using v by simp
  have none: "dispatch (example_registry (failure ''HTTP 500: Server Error'')) example_integrations ()
       = Inl ''All integrations failed: network down, channel not found, HTTP 500: Server Error''"
    using all_fail bad by (simp add: failure_def)
  have "integrationPromises (example_registry example_success) (Some []) () = [] \<longrightarrow>
        dispatch (example_registry example_success) (Some []) ()
          = Inl ''No integrations configured''"
    by (rule dispatch_over_started_promises [THEN conjunct2, THEN conjunct2, THEN conjunct1])
  then have empty: "dispatch (example_registry example_success) (Some []) ()
       = Inl ''No integrations configured''"
    by (simp add: integrationPromises_def)
  show ?thesis using one none empty by (simp add: example_promises)
qed


end
